theory Spec2Isabelle
  imports Main "HOL-Library.Word"
begin

unbundle bit_operations_syntax

section \<open>Machine types and the data model of gummemory-posix.c\<close>

text \<open>
  The backend is compiled for 64-bit POSIX targets: \<open>gsize\<close>, \<open>gpointer\<close> and
  \<open>GumAddress\<close> are 64-bit unsigned words (arithmetic wraps), \<open>guint\<close> and \<open>gint\<close>
  are 32-bit. A \<open>NULL\<close> result and \<open>MAP_FAILED\<close> are the value \<open>None\<close> of an option;
  a \<open>NULL\<close> address hint is the word 0.
\<close>

type_synonym guint = "32 word"
type_synonym gint = "32 word"
type_synonym gsize = "64 word"
type_synonym gpointer = "64 word"
type_synonym GumAddress = "64 word"

text \<open>
  Modelled from the spec: the enum \<open>GumPageProtection\<close> is declared in a header of the
  repository, outside gummemory-posix.c. The spec describes it as a set over
  {Read, Write, Execute} whose empty set is "no access"; the test
  \<open>(page_prot & GUM_PAGE_WRITE) == 0\<close> is non-membership.
\<close>

datatype GumPageFlag = GUM_PAGE_READ | GUM_PAGE_WRITE | GUM_PAGE_EXECUTE

type_synonym GumPageProtection = "GumPageFlag set"

definition GUM_PAGE_NO_ACCESS :: GumPageProtection where
  "GUM_PAGE_NO_ACCESS = {}"

definition GUM_PAGE_RW :: GumPageProtection where
  "GUM_PAGE_RW = {GUM_PAGE_READ, GUM_PAGE_WRITE}"

text \<open>The native protection bits of \<open>sys/mman.h\<close>.\<close>

definition PROT_NONE :: gint where "PROT_NONE = 0"
definition PROT_READ :: gint where "PROT_READ = 1"
definition PROT_WRITE :: gint where "PROT_WRITE = 2"
definition PROT_EXEC :: gint where "PROT_EXEC = 4"

record GumMemoryRange =
  base_address :: GumAddress
  range_size :: gsize

record GumRangeDetails =
  details_range :: GumMemoryRange
  protection :: GumPageProtection
  file_mapping :: "string option"

record GumAddressSpec =
  near_address :: gpointer
  max_distance :: gsize

record GumAllocNearContext =
  ctx_result :: "gpointer option"
  ctx_size :: gsize
  posix_page_prot :: gint
  address_spec :: GumAddressSpec

record 'u GumEnumerateFreeRangesContext =
  func :: "GumRangeDetails \<Rightarrow> 'u \<Rightarrow> bool \<times> 'u"
  user_data :: 'u
  prev_end :: GumAddress

text \<open>
  The two ways a call can abort instead of returning: a failed \<open>g_assert\<close> and a memory
  access to a page that does not allow it.
\<close>

datatype fault = Assertion_failed | Segfault

section \<open>The operating system as the code sees it\<close>

datatype errno_code = EINVAL | ENOSYS | ENOMEM | EAGAIN | EACCES | EPERM | EBADF

datatype advice = MADV_FREE | MADV_DONTNEED

text \<open>
  Every system call the code issues is appended to a log, with its arguments and the
  answer it got: \<open>Mmap addr len prot fixed answer\<close>, \<open>Munmap addr len ok\<close>,
  \<open>Mprotect addr len prot\<close>, \<open>Madvise addr len advice error\<close>.
\<close>

datatype syscall =
    Mmap gpointer gsize gint bool "gpointer option"
  | Munmap gpointer gsize bool
  | Mprotect gpointer gsize gint
  | Madvise gpointer gsize advice "errno_code option"

text \<open>
  The state of the process: the protection of every mapped byte (\<open>None\<close> where nothing
  is mapped), the \<open>gsize\<close> stored at an address, \<open>errno\<close>, and the log.
\<close>

record os_state =
  prot_of :: "GumAddress \<Rightarrow> gint option"
  mem :: "GumAddress \<Rightarrow> gsize"
  errno :: "errno_code option"
  calls :: "syscall list"

text \<open>
  What the kernel decides is a parameter of every operation: the page size
  \<open>sysconf (_SC_PAGE_SIZE)\<close> reports, where (and whether) \<open>mmap\<close> places a mapping,
  whether \<open>munmap\<close> succeeds, and the error of \<open>madvise\<close> (\<open>None\<close> is success).
\<close>

record kernel =
  k_page_size :: guint
  k_mmap :: "os_state \<Rightarrow> gpointer \<Rightarrow> gsize \<Rightarrow> gint \<Rightarrow> bool \<Rightarrow> gpointer option"
  k_munmap :: "os_state \<Rightarrow> gpointer \<Rightarrow> gsize \<Rightarrow> bool"
  k_madvise :: "os_state \<Rightarrow> gpointer \<Rightarrow> gsize \<Rightarrow> advice \<Rightarrow> errno_code option"

definition in_region :: "GumAddress \<Rightarrow> nat \<Rightarrow> GumAddress \<Rightarrow> bool" where
  "in_region b n a = (unat b \<le> unat a \<and> unat a < unat b + n)"

definition round_up :: "nat \<Rightarrow> nat \<Rightarrow> nat" where
  "round_up x b = ((x + b - 1) div b) * b"

text \<open>\<open>mmap\<close> and \<open>munmap\<close> work on whole pages: a length covers the pages it touches.\<close>

definition page_span :: "kernel \<Rightarrow> gsize \<Rightarrow> nat" where
  "page_span K len = round_up (unat len) (unat (k_page_size K))"

definition mmap :: "kernel \<Rightarrow> gpointer \<Rightarrow> gsize \<Rightarrow> gint \<Rightarrow> bool \<Rightarrow> os_state
    \<Rightarrow> gpointer option \<times> os_state" where
  "mmap K addr len prot fixed s =
     (case k_mmap K s addr len prot fixed of
        None \<Rightarrow> (None, s\<lparr>calls := calls s @ [Mmap addr len prot fixed None]\<rparr>)
      | Some b \<Rightarrow>
          (Some b,
           s\<lparr>prot_of := (\<lambda>a. if in_region b (page_span K len) a then Some prot else prot_of s a),
             calls := calls s @ [Mmap addr len prot fixed (Some b)]\<rparr>))"

definition munmap :: "kernel \<Rightarrow> gpointer \<Rightarrow> gsize \<Rightarrow> os_state \<Rightarrow> bool \<times> os_state" where
  "munmap K addr len s =
     (if k_munmap K s addr len
      then (True,
            s\<lparr>prot_of := (\<lambda>a. if in_region addr (page_span K len) a then None else prot_of s a),
              calls := calls s @ [Munmap addr len True]\<rparr>)
      else (False, s\<lparr>calls := calls s @ [Munmap addr len False]\<rparr>))"

definition madvise :: "kernel \<Rightarrow> gpointer \<Rightarrow> gsize \<Rightarrow> advice \<Rightarrow> os_state \<Rightarrow> int \<times> os_state" where
  "madvise K addr len adv s =
     (case k_madvise K s addr len adv of
        None \<Rightarrow> (0, s\<lparr>calls := calls s @ [Madvise addr len adv None]\<rparr>)
      | Some e \<Rightarrow> (- 1, s\<lparr>errno := Some e, calls := calls s @ [Madvise addr len adv (Some e)]\<rparr>))"

text \<open>
  A store of a \<open>gsize\<close> through a pointer needs a mapped page with \<open>PROT_WRITE\<close>, a load
  one with \<open>PROT_READ\<close>; anything else is a segmentation fault.
\<close>

definition store :: "os_state \<Rightarrow> gpointer \<Rightarrow> gsize \<Rightarrow> fault + os_state" where
  "store s p v =
     (case prot_of s p of
        None \<Rightarrow> Inl Segfault
      | Some pr \<Rightarrow> if pr AND PROT_WRITE \<noteq> 0 then Inr (s\<lparr>mem := (mem s)(p := v)\<rparr>) else Inl Segfault)"

definition load :: "os_state \<Rightarrow> gpointer \<Rightarrow> fault + gsize" where
  "load s p =
     (case prot_of s p of
        None \<Rightarrow> Inl Segfault
      | Some pr \<Rightarrow> if pr AND PROT_READ \<noteq> 0 then Inr (mem s p) else Inl Segfault)"

section \<open>Helpers of the repository that the backend calls\<close>

text \<open>\<open>_gum_memory_backend_query_page_size\<close>: what \<open>sysconf (_SC_PAGE_SIZE)\<close> reports.\<close>

definition gum_memory_backend_query_page_size :: "kernel \<Rightarrow> guint" where
  "gum_memory_backend_query_page_size K = k_page_size K"

text \<open>
  Modelled from the spec: \<open>gum_query_page_size\<close> is defined outside gummemory-posix.c.
  The spec calls it the page-size query, "queried once and treated as an immutable
  constant": it hands out the backend's value.
\<close>

definition gum_query_page_size :: "kernel \<Rightarrow> guint" where
  "gum_query_page_size K = gum_memory_backend_query_page_size K"

text \<open>
  Modelled from the spec: the macros \<open>GUM_ALIGN_SIZE\<close> and \<open>GUM_ALIGN_POINTER\<close> are
  defined outside gummemory-posix.c. The spec reads both as \<open>roundUp\<close> to a multiple of the
  second argument (\<open>roundUp(size + (alignment - pageSize), pageSize)\<close>,
  \<open>alignedBase = roundUp(base, alignment)\<close>); the result is a machine word again.
  The spec words the first use of \<open>GUM_ALIGN_POINTER\<close>, on the address hint, as rounding
  down; the hint only reaches the kernel's placement decision.
\<close>

definition GUM_ALIGN_SIZE :: "gsize \<Rightarrow> gsize \<Rightarrow> gsize" where
  "GUM_ALIGN_SIZE s b = word_of_nat (round_up (unat s) (unat b))"

definition GUM_ALIGN_POINTER :: "gpointer \<Rightarrow> gsize \<Rightarrow> gpointer" where
  "GUM_ALIGN_POINTER p b = word_of_nat (round_up (unat p) (unat b))"

text \<open>GLib's \<open>ABS\<close> on the \<open>ptrdiff_t\<close> a pointer subtraction yields.\<close>

definition ABS :: "64 word \<Rightarrow> 64 word" where
  "ABS a = (if sint a < 0 then - a else a)"

definition gum_page_protection_to_posix :: "GumPageProtection \<Rightarrow> gint" where
  "gum_page_protection_to_posix page_prot =
     (let posix_page_prot = PROT_NONE;
          posix_page_prot = (if GUM_PAGE_READ \<in> page_prot
                             then posix_page_prot OR PROT_READ else posix_page_prot);
          posix_page_prot = (if GUM_PAGE_WRITE \<in> page_prot
                             then posix_page_prot OR PROT_WRITE else posix_page_prot);
          posix_page_prot = (if GUM_PAGE_EXECUTE \<in> page_prot
                             then posix_page_prot OR PROT_EXEC else posix_page_prot)
      in posix_page_prot)"

text \<open>
  Modelled from the spec: \<open>gum_mprotect\<close> is defined outside gummemory-posix.c. The spec
  has it "upgrade the header page to Read+Write" and "restrict the header page to
  Read-only": the mapped bytes of the range get the native value of the protection.
\<close>

definition gum_mprotect :: "gpointer \<Rightarrow> gsize \<Rightarrow> GumPageProtection \<Rightarrow> os_state \<Rightarrow> os_state" where
  "gum_mprotect address sz page_prot s =
     s\<lparr>prot_of := (\<lambda>a. if in_region address (unat sz) a \<and> prot_of s a \<noteq> None
                        then Some (gum_page_protection_to_posix page_prot) else prot_of s a),
       calls := calls s @ [Mprotect address sz (gum_page_protection_to_posix page_prot)]\<rparr>"

section \<open>The raw allocator\<close>

definition gum_allocate_page_aligned :: "kernel \<Rightarrow> gpointer \<Rightarrow> gsize \<Rightarrow> gint \<Rightarrow> os_state
    \<Rightarrow> gpointer option \<times> os_state" where
  "gum_allocate_page_aligned K address sz prot s = mmap K address sz prot False s"

definition gum_memory_free :: "kernel \<Rightarrow> gpointer \<Rightarrow> gsize \<Rightarrow> os_state \<Rightarrow> bool \<times> os_state" where
  "gum_memory_free K address sz s = munmap K address sz s"

definition gum_memory_release :: "kernel \<Rightarrow> gpointer \<Rightarrow> gsize \<Rightarrow> os_state \<Rightarrow> bool \<times> os_state" where
  "gum_memory_release K address sz s = gum_memory_free K address sz s"

definition gum_memory_commit :: "gpointer \<Rightarrow> gsize \<Rightarrow> GumPageProtection \<Rightarrow> os_state
    \<Rightarrow> bool \<times> os_state" where
  "gum_memory_commit address sz page_prot s = (True, s)"

text \<open>Line 189: the size before it is rounded to pages.\<close>

definition padded_size :: "gsize \<Rightarrow> gsize \<Rightarrow> gsize \<Rightarrow> gsize" where
  "padded_size sz alignment page_size = sz + (alignment - page_size)"

text \<open>
  Lines 197 to 211: the aligned base, the two releases, and the allocation size the code
  keeps track of.
\<close>

definition trim_to_alignment :: "kernel \<Rightarrow> gpointer \<Rightarrow> gsize \<Rightarrow> gsize \<Rightarrow> gsize \<Rightarrow> os_state
    \<Rightarrow> gpointer \<times> gsize \<times> os_state" where
  "trim_to_alignment K base allocation_size sz alignment s =
     (let aligned_base = GUM_ALIGN_POINTER base alignment;
          (allocation_size, s) =
            (if aligned_base \<noteq> base
             then let prefix_size = aligned_base - base;
                      (freed, s) = gum_memory_free K base prefix_size s
                  in (allocation_size - prefix_size, s)
             else (allocation_size, s));
          (allocation_size, s) =
            (if allocation_size \<noteq> sz
             then let suffix_size = allocation_size - sz;
                      (freed, s) = gum_memory_free K (aligned_base + sz) suffix_size s
                  in (allocation_size - suffix_size, s)
             else (allocation_size, s))
      in (aligned_base, allocation_size, s))"

definition gum_memory_allocate :: "kernel \<Rightarrow> gpointer \<Rightarrow> gsize \<Rightarrow> gsize \<Rightarrow> GumPageProtection
    \<Rightarrow> os_state \<Rightarrow> fault + (gpointer option \<times> os_state)" where
  "gum_memory_allocate K address sz alignment page_prot s =
     (let address = GUM_ALIGN_POINTER address alignment;
          page_size = ucast (gum_query_page_size K);
          allocation_size = padded_size sz alignment page_size;
          allocation_size = GUM_ALIGN_SIZE allocation_size page_size;
          (base, s) = gum_allocate_page_aligned K address allocation_size
                        (gum_page_protection_to_posix page_prot) s
      in case base of
           None \<Rightarrow> Inr (None, s)
         | Some base \<Rightarrow>
             let (aligned_base, allocation_size, s) =
                   trim_to_alignment K base allocation_size sz alignment s
             in if allocation_size = sz then Inr (Some aligned_base, s)
                else Inl Assertion_failed)"

definition gum_memory_decommit :: "kernel \<Rightarrow> gpointer \<Rightarrow> gsize \<Rightarrow> os_state \<Rightarrow> bool \<times> os_state" where
  "gum_memory_decommit K address sz s =
     (let (res, s) = madvise K address sz MADV_FREE s
      in if res \<noteq> 0
         then if errno s = Some ENOSYS then (True, s)
              else if errno s = Some EINVAL
                   then let (res, s) = madvise K address sz MADV_DONTNEED s in (res = 0, s)
                   else (res = 0, s)
         else (res = 0, s))"

section \<open>The sized page allocator\<close>

text \<open>
  Lines 84 to 87 and lines 111 to 114, the same three statements: make the header page
  writable when the request was not, store the size, make the header page read-only.
\<close>

definition write_size_header :: "kernel \<Rightarrow> gpointer \<Rightarrow> GumPageProtection \<Rightarrow> gsize \<Rightarrow> os_state
    \<Rightarrow> fault + os_state" where
  "write_size_header K result page_prot sz s =
     (let page_size = ucast (gum_query_page_size K);
          s = (if GUM_PAGE_WRITE \<notin> page_prot
               then gum_mprotect result page_size GUM_PAGE_RW s else s)
      in case store s result sz of
           Inl f \<Rightarrow> Inl f
         | Inr s \<Rightarrow> Inr (gum_mprotect result page_size {GUM_PAGE_READ} s))"

definition gum_try_alloc_n_pages :: "kernel \<Rightarrow> guint \<Rightarrow> GumPageProtection \<Rightarrow> os_state
    \<Rightarrow> fault + (gpointer option \<times> os_state)" where
  "gum_try_alloc_n_pages K n_pages page_prot s =
     (let page_size = ucast (gum_query_page_size K);
          sz = ucast (1 + n_pages) * page_size
      in case gum_memory_allocate K 0 sz page_size page_prot s of
           Inl f \<Rightarrow> Inl f
         | Inr (None, s) \<Rightarrow> Inr (None, s)
         | Inr (Some result, s) \<Rightarrow>
             (case write_size_header K result page_prot sz s of
                Inl f \<Rightarrow> Inl f
              | Inr s \<Rightarrow> Inr (Some (result + page_size), s)))"

definition gum_query_page_allocation_range :: "kernel \<Rightarrow> gpointer \<Rightarrow> guint \<Rightarrow> GumMemoryRange" where
  "gum_query_page_allocation_range K m sz =
     (let page_size = ucast (gum_query_page_size K)
      in \<lparr>base_address = m - page_size, range_size = ucast sz + page_size\<rparr>)"

definition gum_free_pages :: "kernel \<Rightarrow> gpointer \<Rightarrow> os_state \<Rightarrow> fault + os_state" where
  "gum_free_pages K m s =
     (let start = m - ucast (gum_query_page_size K)
      in case load s start of
           Inl f \<Rightarrow> Inl f
         | Inr sz \<Rightarrow> Inr (snd (gum_memory_release K start sz s)))"

section \<open>The free-range scanner\<close>

text \<open>
  Modelled from the spec: \<open>_gum_process_enumerate_ranges\<close> is defined outside
  gummemory-posix.c. The spec gives its contract: it invokes the callback once per occupied range, in
  the order of the feed, and "enumeration stops early when the callback returns false".
  The feed (the occupied ranges the process reports) is the list \<open>occupied\<close>; the
  protection filter of the call, "no access", keeps every range.
\<close>

fun gum_process_enumerate_ranges :: "GumRangeDetails list \<Rightarrow> GumPageProtection
    \<Rightarrow> (GumRangeDetails \<Rightarrow> 'c \<Rightarrow> bool \<times> 'c) \<Rightarrow> 'c \<Rightarrow> 'c" where
  "gum_process_enumerate_ranges [] prot f c = c"
| "gum_process_enumerate_ranges (d # ds) prot f c =
     (let (carry_on, c) = f d c
      in if carry_on then gum_process_enumerate_ranges ds prot f c else c)"

definition gum_emit_free_range :: "GumRangeDetails \<Rightarrow> 'u GumEnumerateFreeRangesContext
    \<Rightarrow> bool \<times> 'u GumEnumerateFreeRangesContext" where
  "gum_emit_free_range details ctx =
     (let range = details_range details;
          start = base_address range;
          end_address = start + range_size range;
          (carry_on, ctx) =
            (if prev_end ctx \<noteq> 0
             then let gap_size = start - prev_end ctx
                  in if gap_size > 0
                     then let r = \<lparr>base_address = prev_end ctx, range_size = gap_size\<rparr>;
                              d = \<lparr>details_range = r, protection = GUM_PAGE_NO_ACCESS,
                                   file_mapping = None\<rparr>;
                              (carry_on, u) = func ctx d (user_data ctx)
                          in (carry_on, ctx\<lparr>user_data := u\<rparr>)
                     else (True, ctx)
             else (True, ctx))
      in (carry_on, ctx\<lparr>prev_end := end_address\<rparr>))"

definition gum_enumerate_free_ranges :: "GumRangeDetails list
    \<Rightarrow> (GumRangeDetails \<Rightarrow> 'u \<Rightarrow> bool \<times> 'u) \<Rightarrow> 'u \<Rightarrow> 'u" where
  "gum_enumerate_free_ranges occupied f u =
     user_data (gum_process_enumerate_ranges occupied GUM_PAGE_NO_ACCESS gum_emit_free_range
                  \<lparr>func = f, user_data = u, prev_end = 0\<rparr>)"

section \<open>The near-address allocator\<close>

definition gum_try_alloc_in_range_if_near_enough :: "kernel \<Rightarrow> GumRangeDetails
    \<Rightarrow> GumAllocNearContext \<times> os_state \<Rightarrow> bool \<times> (GumAllocNearContext \<times> os_state)" where
  "gum_try_alloc_in_range_if_near_enough K details cs =
     (let range = details_range details;
          ctx = fst cs;
          s = snd cs
      in if range_size range < ctx_size ctx then (True, (ctx, s))
         else
           let base = base_address range;
               distance = ABS (near_address (address_spec ctx) - base);
               (base, distance) =
                 (if distance > max_distance (address_spec ctx)
                  then let base = base_address range + range_size range - ctx_size ctx
                       in (base, ABS (near_address (address_spec ctx) - base))
                  else (base, distance))
           in if distance > max_distance (address_spec ctx) then (True, (ctx, s))
              else
                let (r, s) = mmap K base (ctx_size ctx) (posix_page_prot ctx) True s
                in case r of
                     None \<Rightarrow> (True, (ctx\<lparr>ctx_result := None\<rparr>, s))
                   | Some p \<Rightarrow> (False, (ctx\<lparr>ctx_result := Some p\<rparr>, s)))"

definition gum_try_alloc_n_pages_near :: "kernel \<Rightarrow> GumRangeDetails list \<Rightarrow> guint
    \<Rightarrow> GumPageProtection \<Rightarrow> GumAddressSpec \<Rightarrow> os_state
    \<Rightarrow> fault + (gpointer option \<times> os_state)" where
  "gum_try_alloc_n_pages_near K occupied n_pages page_prot spec s =
     (let page_size = ucast (gum_query_page_size K);
          ctx = \<lparr>ctx_result = None,
                 ctx_size = ucast (1 + n_pages) * page_size,
                 posix_page_prot = gum_page_protection_to_posix page_prot,
                 address_spec = spec\<rparr>;
          (ctx, s) = gum_enumerate_free_ranges occupied
                       (gum_try_alloc_in_range_if_near_enough K) (ctx, s)
      in case ctx_result ctx of
           None \<Rightarrow> Inr (None, s)
         | Some result \<Rightarrow>
             (case write_size_header K result page_prot (ctx_size ctx) s of
                Inl f \<Rightarrow> Inl f
              | Inr s \<Rightarrow> Inr (Some (result + page_size), s)))"

section \<open>The notions the properties are stated with\<close>

subsection \<open>The guarantees of a POSIX kernel\<close>

definition is_power_of_two :: "'a::len word \<Rightarrow> bool" where
  "is_power_of_two w = (\<exists>k < LENGTH('a). w = 2 ^ k)"

text \<open>
  What POSIX promises of any kernel: the page size is a power of two; a mapping that
  succeeds has a length other than zero, starts on a page boundary, ends inside the
  address space, and with \<open>MAP_FIXED\<close> starts at the address asked for; \<open>munmap\<close> only
  succeeds for a length other than zero at a page boundary.
\<close>

definition kernel_sound :: "kernel \<Rightarrow> bool" where
  "kernel_sound K =
     (is_power_of_two (k_page_size K) \<and>
      (\<forall>s addr len prot fixed b. k_mmap K s addr len prot fixed = Some b \<longrightarrow>
         len \<noteq> 0 \<and> unat b mod unat (k_page_size K) = 0 \<and>
         unat b + page_span K len \<le> 2 ^ 64 \<and> (fixed \<longrightarrow> b = addr)) \<and>
      (\<forall>s addr len. k_munmap K s addr len \<longrightarrow>
         len \<noteq> 0 \<and> unat addr mod unat (k_page_size K) = 0))"

subsection \<open>The free ranges, in the words of the spec\<close>

text \<open>
  The collaborator's contract: occupied ranges arrive in strictly ascending order of
  their base addresses and do not overlap; a range has a size above zero.
\<close>

fun ascending :: "GumMemoryRange list \<Rightarrow> bool" where
  "ascending (r1 # r2 # rs) =
     (range_size r1 \<noteq> 0 \<and>
      unat (base_address r1) + unat (range_size r1) \<le> unat (base_address r2) \<and>
      ascending (r2 # rs))"
| "ascending [r] = (range_size r \<noteq> 0)"
| "ascending [] = True"

text \<open>
  One free range \<open>{base: prevEnd, size: range.base - prevEnd}\<close> for each pair of
  consecutive occupied ranges with a gap between them; nothing before the first
  occupied range, nothing after the last.
\<close>

fun gaps_between :: "GumMemoryRange list \<Rightarrow> GumMemoryRange list" where
  "gaps_between (r1 # r2 # rs) =
     (if unat (base_address r1) + unat (range_size r1) < unat (base_address r2)
      then [\<lparr>base_address = base_address r1 + range_size r1,
              range_size = base_address r2 - (base_address r1 + range_size r1)\<rparr>]
      else []) @ gaps_between (r2 # rs)"
| "gaps_between [r] = []"
| "gaps_between [] = []"

definition free_range_details :: "GumMemoryRange \<Rightarrow> GumRangeDetails" where
  "free_range_details r =
     \<lparr>details_range = r, protection = GUM_PAGE_NO_ACCESS, file_mapping = None\<rparr>"

text \<open>Handing free ranges to a callback, one by one, until it signals stop.\<close>

fun deliver :: "(GumRangeDetails \<Rightarrow> 'u \<Rightarrow> bool \<times> 'u) \<Rightarrow> GumMemoryRange list \<Rightarrow> 'u \<Rightarrow> 'u" where
  "deliver f [] u = u"
| "deliver f (r # rs) u =
     (let (carry_on, u) = f (free_range_details r) u
      in if carry_on then deliver f rs u else u)"

text \<open>A callback that never stops and keeps every range it is given.\<close>

definition record_range :: "GumRangeDetails \<Rightarrow> GumMemoryRange list \<Rightarrow> bool \<times> GumMemoryRange list" where
  "record_range d seen = (True, seen @ [details_range d])"

text \<open>The free ranges the scanner emits for a feed when no callback stops it.\<close>

definition emitted_ranges :: "GumRangeDetails list \<Rightarrow> GumMemoryRange list" where
  "emitted_ranges occupied = gum_enumerate_free_ranges occupied record_range []"

text \<open>
  The same ranges as a function of the previous end the scanner keeps (0 is "unset") and
  of the occupied ranges still to come.
\<close>

fun scan_gaps :: "GumAddress \<Rightarrow> GumMemoryRange list \<Rightarrow> GumMemoryRange list" where
  "scan_gaps e [] = []"
| "scan_gaps e (r # rs) =
     (if e \<noteq> 0 \<and> base_address r - e > 0
      then [\<lparr>base_address = e, range_size = base_address r - e\<rparr>] else [])
     @ scan_gaps (base_address r + range_size r) rs"

subsection \<open>Distances and candidate gaps\<close>

definition distance_between :: "gpointer \<Rightarrow> gpointer \<Rightarrow> nat" where
  "distance_between a b = (if unat a \<le> unat b then unat b - unat a else unat a - unat b)"

text \<open>
  A gap satisfies the size requirement and the distance bound: it holds the required
  size, and its base, or the base of the required size put at its end, is within the
  distance of the target.
\<close>

definition gap_acceptable :: "GumAddressSpec \<Rightarrow> gsize \<Rightarrow> GumMemoryRange \<Rightarrow> bool" where
  "gap_acceptable spec required r =
     (required \<le> range_size r \<and>
      (ABS (near_address spec - base_address r) \<le> max_distance spec \<or>
       ABS (near_address spec - (base_address r + range_size r - required))
         \<le> max_distance spec))"

text \<open>The size both page allocators ask for: line 78 and line 103.\<close>

definition required_size :: "kernel \<Rightarrow> guint \<Rightarrow> gsize" where
  "required_size K n_pages = ucast (1 + n_pages) * ucast (gum_query_page_size K)"

fun is_fixed_mapping :: "syscall \<Rightarrow> bool" where
  "is_fixed_mapping (Mmap addr len prot fixed (Some b)) = fixed"
| "is_fixed_mapping c = False"

definition returned :: "fault + ('a \<times> os_state) \<Rightarrow> fault + 'a" where
  "returned r = map_sum id fst r"

subsection \<open>A kernel and a process to run the code on\<close>

text \<open>
  A kernel with pages of 4096 bytes. It places a mapping without \<open>MAP_FIXED\<close> at
  \<open>place\<close>, refuses \<open>MAP_FIXED\<close> at the addresses \<open>busy\<close> holds, refuses what POSIX
  refuses, and answers \<open>madvise\<close> as \<open>adv\<close> says.
\<close>

definition example_kernel :: "gpointer \<Rightarrow> (gpointer \<Rightarrow> bool) \<Rightarrow> (advice \<Rightarrow> errno_code option)
    \<Rightarrow> kernel" where
  "example_kernel place busy adv =
     \<lparr>k_page_size = 4096,
      k_mmap = (\<lambda>s addr len prot fixed.
         let b = (if fixed then addr else place)
         in if len = 0 \<or> unat b mod 4096 \<noteq> 0 \<or> 2 ^ 64 < unat b + round_up (unat len) 4096
               \<or> (fixed \<and> busy addr)
            then None else Some b),
      k_munmap = (\<lambda>s addr len. len \<noteq> 0 \<and> unat addr mod 4096 = 0),
      k_madvise = (\<lambda>s addr len a. adv a)\<rparr>"

definition empty_state :: os_state where
  "empty_state = \<lparr>prot_of = (\<lambda>a. None), mem = (\<lambda>a. 0), errno = None, calls = []\<rparr>"

definition occupied_range :: "GumAddress \<Rightarrow> gsize \<Rightarrow> GumRangeDetails" where
  "occupied_range b n =
     \<lparr>details_range = \<lparr>base_address = b, range_size = n\<rparr>,
      protection = GUM_PAGE_NO_ACCESS, file_mapping = None\<rparr>"

text \<open>Kernels for the examples: nothing is busy, and \<open>madvise\<close> succeeds or asks for the fallback.\<close>

definition nothing_busy :: "gpointer \<Rightarrow> bool" where
  "nothing_busy a = False"

definition advice_accepted :: "advice \<Rightarrow> errno_code option" where
  "advice_accepted a = None"

definition free_advice_invalid :: "advice \<Rightarrow> errno_code option" where
  "free_advice_invalid a = (if a = MADV_FREE then Some EINVAL else None)"

definition plain_kernel :: kernel where
  "plain_kernel = example_kernel 0x10000 nothing_busy advice_accepted"

text \<open>A callback that keeps the range it is given and stops the scan.\<close>

definition record_and_stop :: "GumRangeDetails \<Rightarrow> GumMemoryRange list \<Rightarrow> bool \<times> GumMemoryRange list" where
  "record_and_stop d seen = (False, seen @ [details_range d])"

text \<open>
  The base the near callback tries in a gap it accepts (lines 131 to 139): the base of the
  gap when that is near enough, the required size put at the end of the gap otherwise.
\<close>

definition candidate_base :: "GumAddressSpec \<Rightarrow> gsize \<Rightarrow> GumMemoryRange \<Rightarrow> GumAddress" where
  "candidate_base spec required r =
     (if ABS (near_address spec - base_address r) \<le> max_distance spec then base_address r
      else base_address r + range_size r - required)"

text \<open>
  What a scan over the free ranges \<open>gs\<close> leaves behind, from state \<open>s\<close> to state
  \<open>s'\<close> with result \<open>r\<close> in the context: the calls it added are attempts at fixed
  mappings; without a result none of them succeeded and no page changed; with a result
  \<open>b\<close> the last call mapped the required size at \<open>b\<close>, the candidate base of an
  accepted gap, and every call before it failed.
\<close>

definition scan_outcome :: "kernel \<Rightarrow> GumAllocNearContext \<Rightarrow> GumMemoryRange list \<Rightarrow> os_state
    \<Rightarrow> gpointer option \<Rightarrow> os_state \<Rightarrow> bool" where
  "scan_outcome K ctx gs s r s' =
     (mem s' = mem s \<and>
      (case r of
         None \<Rightarrow> prot_of s' = prot_of s \<and>
           (\<exists>evs. calls s' = calls s @ evs \<and> list_all (\<lambda>e. \<not> is_fixed_mapping e) evs)
       | Some b \<Rightarrow>
           list_ex (\<lambda>g. gap_acceptable (address_spec ctx) (ctx_size ctx) g \<and>
                         b = candidate_base (address_spec ctx) (ctx_size ctx) g) gs \<and>
           ctx_size ctx \<noteq> 0 \<and>
           unat b mod unat (k_page_size K) = 0 \<and>
           unat b + page_span K (ctx_size ctx) \<le> 2 ^ 64 \<and>
           prot_of s' = (\<lambda>a. if in_region b (page_span K (ctx_size ctx)) a
                              then Some (posix_page_prot ctx) else prot_of s a) \<and>
           (\<exists>evs. calls s' = calls s @ evs @
                      [Mmap b (ctx_size ctx) (posix_page_prot ctx) True (Some b)] \<and>
                    list_all (\<lambda>e. \<not> is_fixed_mapping e) evs)))"

text \<open>
  The hidden header of a page allocation returned as \<open>p\<close>, as a caller finds it: the page
  before \<open>p\<close> holds the total size and is read-only (a store to it faults), the last
  call issued was the \<open>mprotect\<close> that made it so, and the \<open>n\<close> pages from \<open>p\<close> on carry the
  requested protection.
\<close>

definition header_sealed :: "kernel \<Rightarrow> guint \<Rightarrow> GumPageProtection \<Rightarrow> gpointer \<Rightarrow> os_state \<Rightarrow> bool" where
  "header_sealed K n page_prot p s =
     (mem s (p - ucast (gum_query_page_size K)) = required_size K n \<and>
      (\<forall>a. in_region (p - ucast (gum_query_page_size K)) (unat (k_page_size K)) a \<longrightarrow>
           prot_of s a = Some PROT_READ) \<and>
      (\<forall>v. store s (p - ucast (gum_query_page_size K)) v = Inl Segfault) \<and>
      (\<exists>before. calls s = before @
         [Mprotect (p - ucast (gum_query_page_size K)) (ucast (gum_query_page_size K)) PROT_READ]) \<and>
      (\<forall>a. in_region p (unat n * unat (k_page_size K)) a \<longrightarrow>
           prot_of s a = Some (gum_page_protection_to_posix page_prot)))"

text \<open>The system calls in the log of the state a call returned.\<close>

definition logged :: "fault + ('a \<times> os_state) \<Rightarrow> syscall list" where
  "logged r = (case r of Inl f \<Rightarrow> [] | Inr (x, s) \<Rightarrow> calls s)"

text \<open>Occupied ranges and targets for the examples of the near allocator.\<close>

definition two_occupied :: "GumRangeDetails list" where
  "two_occupied = [occupied_range 0x10000 0x10000, occupied_range 0x40000 0x10000]"




text \<open>The protection of an address in the state a call returned (\<open>None\<close>: not mapped).\<close>

definition protection_after :: "fault + ('a \<times> os_state) \<Rightarrow> GumAddress \<Rightarrow> gint option" where
  "protection_after r a = (case r of Inl f \<Rightarrow> None | Inr (x, s) \<Rightarrow> prot_of s a)"

text \<open>A kernel that places mappings at an address that is aligned to pages only.\<close>

definition offset_kernel :: kernel where
  "offset_kernel = example_kernel 0x12000 nothing_busy advice_accepted"

text \<open>
  A kernel that places mappings at 0x12000 and refuses every \<open>munmap\<close>, as a kernel
  does that has run out of map entries (\<open>ENOMEM\<close>).
\<close>

definition refusing_kernel :: kernel where
  "refusing_kernel = offset_kernel\<lparr>k_munmap := (\<lambda>s addr len. False)\<rparr>"

section \<open>Decommit\<close>

text \<open>
  C8. \<open>gum_memory_decommit\<close> first issues \<open>madvise\<close> with \<open>MADV_FREE\<close>. When the kernel
  answers \<open>ENOSYS\<close> the function returns true and issues nothing more; when it answers
  \<open>EINVAL\<close> the function issues exactly one more \<open>madvise\<close>, with \<open>MADV_DONTNEED\<close>, and
  returns whether that one succeeded; in every other case nothing more is issued and
  the function returns whether the first call succeeded.
\<close>

theorem gum_memory_decommit_protocol:
  assumes "gum_memory_decommit K address sz s = (ok, s')"
  shows "\<exists>rest.
     calls s' = calls s @ Madvise address sz MADV_FREE (k_madvise K s address sz MADV_FREE) # rest \<and>
     (k_madvise K s address sz MADV_FREE = Some ENOSYS \<longrightarrow> ok \<and> rest = []) \<and>
     (k_madvise K s address sz MADV_FREE = Some EINVAL \<longrightarrow>
        (\<exists>r. rest = [Madvise address sz MADV_DONTNEED r] \<and> ok = (r = None))) \<and>
     (k_madvise K s address sz MADV_FREE \<noteq> Some ENOSYS \<and>
      k_madvise K s address sz MADV_FREE \<noteq> Some EINVAL \<longrightarrow>
        rest = [] \<and> ok = (k_madvise K s address sz MADV_FREE = None))"
  using assms
  by (auto simp: gum_memory_decommit_def madvise_def Let_def
           split: option.splits prod.splits if_splits)

theorem gum_memory_decommit_protocol_witness:
  "gum_memory_decommit (example_kernel 0x10000 nothing_busy free_advice_invalid)
     0x10000 0x1000 empty_state =
     (True, empty_state\<lparr>errno := Some EINVAL,
        calls := [Madvise 0x10000 0x1000 MADV_FREE (Some EINVAL),
                  Madvise 0x10000 0x1000 MADV_DONTNEED None]\<rparr>) \<and>
   calls (snd (gum_memory_decommit (example_kernel 0x10000 nothing_busy free_advice_invalid)
     0x10000 0x1000 empty_state)) =
     calls empty_state @ [Madvise 0x10000 0x1000 MADV_FREE (Some EINVAL),
                          Madvise 0x10000 0x1000 MADV_DONTNEED None]"
proof -
  let ?K = "example_kernel 0x10000 nothing_busy free_advice_invalid"
  have run: "gum_memory_decommit ?K 0x10000 0x1000 empty_state =
     (True, empty_state\<lparr>errno := Some EINVAL,
        calls := [Madvise 0x10000 0x1000 MADV_FREE (Some EINVAL),
                  Madvise 0x10000 0x1000 MADV_DONTNEED None]\<rparr>)"
    by (simp add: gum_memory_decommit_def madvise_def example_kernel_def empty_state_def
        free_advice_invalid_def)
  from gum_memory_decommit_protocol [OF run] run show ?thesis
    by (auto simp: example_kernel_def free_advice_invalid_def)
qed

section \<open>The free-range scanner: what it emits\<close>

lemma unat_lt64: "unat (w :: 64 word) < 2 ^ 64"
  using unsigned_less [of w, where ?'a = nat] by simp

lemma emit_free_range_step:
  "gum_emit_free_range d \<lparr>func = f, user_data = u, prev_end = e\<rparr> =
     (if e \<noteq> 0 \<and> base_address (details_range d) - e > 0
      then (fst (f (free_range_details \<lparr>base_address = e, range_size = base_address (details_range d) - e\<rparr>) u),
            \<lparr>func = f,
             user_data = snd (f (free_range_details \<lparr>base_address = e, range_size = base_address (details_range d) - e\<rparr>) u),
             prev_end = base_address (details_range d) + range_size (details_range d)\<rparr>)
      else (True, \<lparr>func = f, user_data = u,
                   prev_end = base_address (details_range d) + range_size (details_range d)\<rparr>))"
  by (simp add: gum_emit_free_range_def Let_def free_range_details_def split: prod.splits)

lemma enumerate_scan_gaps:
  "user_data (gum_process_enumerate_ranges ds prot gum_emit_free_range
       \<lparr>func = f, user_data = u, prev_end = e\<rparr>) =
   deliver f (scan_gaps e (map details_range ds)) u"
proof (induction ds arbitrary: u e)
  case Nil
  then show ?case by simp
next
  case (Cons d ds)
  show ?case
    by (simp add: emit_free_range_step Cons.IH Let_def split: prod.splits)
qed

lemma enumerate_free_ranges_deliver:
  "gum_enumerate_free_ranges occupied f u = deliver f (scan_gaps 0 (map details_range occupied)) u"
  by (simp add: gum_enumerate_free_ranges_def enumerate_scan_gaps)

lemma deliver_record_range: "deliver record_range rs acc = acc @ rs"
  by (induction rs arbitrary: acc) (simp_all add: record_range_def free_range_details_def)

lemma emitted_ranges_scan_gaps:
  "emitted_ranges occupied = scan_gaps 0 (map details_range occupied)"
  by (simp add: emitted_ranges_def enumerate_free_ranges_deliver deliver_record_range)

lemma scan_gaps_ascending:
  "ascending (r0 # rs) \<Longrightarrow>
   scan_gaps (base_address r0 + range_size r0) rs = gaps_between (r0 # rs)"
proof (induction rs arbitrary: r0)
  case Nil
  then show ?case by simp
next
  case (Cons r rs)
  from Cons.prems have nz: "range_size r0 \<noteq> 0"
    and le: "unat (base_address r0) + unat (range_size r0) \<le> unat (base_address r)"
    and asc: "ascending (r # rs)" by simp_all
  have lt: "unat (base_address r0) + unat (range_size r0) < 2 ^ 64"
    using le unat_lt64 [of "base_address r"] by simp
  then have e: "unat (base_address r0 + range_size r0) = unat (base_address r0) + unat (range_size r0)"
    by (simp add: unat_add_lem [THEN iffD1])
  have e0: "base_address r0 + range_size r0 \<noteq> 0"
    using e nz by (metis add_is_0 unat_0 unat_0_iff)
  have pos: "(0 < base_address r - (base_address r0 + range_size r0)) =
             (unat (base_address r0) + unat (range_size r0) < unat (base_address r))"
    using e le by (auto simp: word_less_nat_alt unat_sub_if_size word_size)
  show ?case
    using Cons.IH [OF asc] e0 pos by simp
qed

lemma scan_gaps_ascending0:
  "ascending rs \<Longrightarrow> scan_gaps 0 rs = gaps_between rs"
  by (cases rs) (simp_all add: scan_gaps_ascending)

text \<open>
  C2. For a feed of occupied ranges in strictly ascending order that do not overlap,
  the scanner hands the callback exactly the free ranges
  \<open>{base: prevEnd, size: range.base - prevEnd}\<close> of the consecutive pairs with a gap
  between them, in order, none before the first occupied range and none after the last,
  and it stops with the first callback that signals stop. The occupied ranges [0,100)
  and [150,200) give the single free range {base: 100, size: 50}.
\<close>

theorem free_range_scanner_emits_gaps:
  assumes "ascending (map details_range occupied)"
  shows "gum_enumerate_free_ranges occupied f u =
         deliver f (gaps_between (map details_range occupied)) u"
  using assms by (simp add: enumerate_free_ranges_deliver scan_gaps_ascending0)

theorem free_range_scanner_emits_gaps_witness:
  "ascending (map details_range [occupied_range 0 100, occupied_range 150 50]) \<and>
   gum_enumerate_free_ranges [occupied_range 0 100, occupied_range 150 50] record_range [] =
     [\<lparr>base_address = 100, range_size = 50\<rparr>] \<and>
   ascending (map details_range [occupied_range 0 100, occupied_range 150 50, occupied_range 300 8]) \<and>
   gum_enumerate_free_ranges [occupied_range 0 100, occupied_range 150 50, occupied_range 300 8]
     record_and_stop [] = [\<lparr>base_address = 100, range_size = 50\<rparr>]"
proof -
  have a1: "ascending (map details_range [occupied_range 0 100, occupied_range 150 50])"
    by (simp add: occupied_range_def)
  have a2: "ascending (map details_range
      [occupied_range 0 100, occupied_range 150 50, occupied_range 300 8])"
    by (simp add: occupied_range_def)
  show ?thesis
    using a1 a2 free_range_scanner_emits_gaps [OF a1, of record_range "[]"]
      free_range_scanner_emits_gaps [OF a2, of record_and_stop "[]"]
    by (simp add: occupied_range_def record_range_def record_and_stop_def free_range_details_def)
qed

section \<open>The raw allocator: the size it keeps track of\<close>

lemma trim_tracked_size:
  "trim_to_alignment K b a sz alignment s = (ab, tracked, s') \<Longrightarrow> tracked = sz"
  by (auto simp: trim_to_alignment_def Let_def split: prod.splits if_splits)

text \<open>
  C6. Whatever the mapping, the alignment and the kernel's answers, the allocation size
  the code keeps track of equals the requested size after the prefix and the suffix
  have been trimmed, and \<open>gum_memory_allocate\<close> never ends in its assertion.
\<close>

theorem trimming_leaves_requested_size:
  "fst (snd (trim_to_alignment K base allocation_size sz alignment s)) = sz \<and>
   gum_memory_allocate K address sz alignment page_prot s \<noteq> Inl Assertion_failed"
proof
  show "fst (snd (trim_to_alignment K base allocation_size sz alignment s)) = sz"
    by (cases "trim_to_alignment K base allocation_size sz alignment s")
       (auto dest: trim_tracked_size)
  show "gum_memory_allocate K address sz alignment page_prot s \<noteq> Inl Assertion_failed"
    by (auto simp: gum_memory_allocate_def Let_def split: prod.splits option.splits
             dest: trim_tracked_size)
qed

section \<open>Arithmetic of pages and the sized page allocator\<close>

lemma unat_lt32: "unat (w :: 32 word) < 2 ^ 32"
  using unsigned_less [of w, where ?'a = nat] by simp

lemma unat_ucast_page: "unat (ucast (w :: 32 word) :: 64 word) = unat w"
proof -
  have "unat w < 2 ^ 64"
    using unat_lt32 [of w] by simp
  then show ?thesis
    by (simp add: unsigned_ucast_eq take_bit_nat_eq_self)
qed

lemma round_up_eq: "round_up x b = (x + b - 1) - (x + b - 1) mod b"
  by (simp add: round_up_def minus_mod_eq_div_mult)

lemma round_up_ge: "0 < b \<Longrightarrow> x \<le> round_up x b"
proof -
  assume b: "0 < b"
  then have "(x + b - 1) mod b < b" by simp
  then show ?thesis unfolding round_up_eq by arith
qed

lemma round_up_lt: "0 < b \<Longrightarrow> round_up x b < x + b"
  unfolding round_up_eq by arith

lemma round_up_mod: "round_up x b mod b = 0"
  unfolding round_up_def by simp

lemma round_up_multiple: "0 < b \<Longrightarrow> x mod b = 0 \<Longrightarrow> round_up x b = x"
proof -
  assume b: "0 < b" and m: "x mod b = 0"
  have d: "b dvd round_up x b - x"
    using m round_up_mod [of x b] round_up_ge [OF b, of x]
    by (metis dvd_diff_nat dvd_eq_mod_eq_0)
  have "round_up x b - x < b"
    using round_up_lt [OF b, of x] round_up_ge [OF b, of x] by arith
  with d have "round_up x b - x = 0"
    by (meson dvd_imp_le not_less zero_less_iff_neq_zero)
  then show ?thesis using round_up_ge [OF b, of x] by arith
qed

text \<open>rounding a multiple of p up to a multiple of b, where p divides b\<close>
lemma round_up_coarser:
  assumes "0 < p" "p dvd b" "0 < b" "x mod p = 0"
  shows "round_up x b mod p = 0" and "round_up x b + p \<le> x + b"
proof -
  show m: "round_up x b mod p = 0"
    using assms(2) round_up_mod [of x b] by (meson dvd_eq_mod_eq_0 dvd_trans)
  have d: "p dvd (x + b) - round_up x b"
    using m assms by (metis dvd_diff_nat dvd_eq_mod_eq_0 dvd_add)
  have "0 < (x + b) - round_up x b"
    using round_up_lt [OF assms(3), of x] by arith
  with d have "p \<le> (x + b) - round_up x b"
    by (meson dvd_imp_le)
  then show "round_up x b + p \<le> x + b"
    using round_up_lt [OF assms(3), of x] by arith
qed

lemma pow2_dvd_cases:
  "(2::nat) ^ j dvd 2 ^ k \<or> (2::nat) ^ k dvd 2 ^ j"
  by (metis le_imp_power_dvd linear)

lemma unat_power_of_two:
  "k < LENGTH('a) \<Longrightarrow> unat ((2 :: 'a::len word) ^ k) = 2 ^ k"
proof -
  assume k: "k < LENGTH('a)"
  have "(2 :: 'a word) ^ k = of_nat (2 ^ k)" by simp
  then have "unat ((2 :: 'a word) ^ k) = 2 ^ k mod 2 ^ LENGTH('a)"
    by (simp only: unat_of_nat)
  then show ?thesis using k by simp
qed

lemma is_power_of_two_unat:
  "is_power_of_two (w :: 'a::len word) \<Longrightarrow> \<exists>k < LENGTH('a). unat w = 2 ^ k"
  by (auto simp: is_power_of_two_def unat_power_of_two)

lemma kernel_sound_page_size:
  assumes "kernel_sound K"
  shows "0 < unat (k_page_size K)" and "\<exists>k < 32. unat (k_page_size K) = 2 ^ k"
proof -
  from assms have "is_power_of_two (k_page_size K)" by (simp add: kernel_sound_def)
  from is_power_of_two_unat [OF this]
  show "\<exists>k < 32. unat (k_page_size K) = 2 ^ k" by simp
  then show "0 < unat (k_page_size K)" by auto
qed

lemma kernel_sound_mmap:
  assumes "kernel_sound K" and "k_mmap K s addr len prot fixed = Some b"
  shows "len \<noteq> 0" and "unat b mod unat (k_page_size K) = 0"
    and "unat b + page_span K len \<le> 2 ^ 64" and "fixed \<Longrightarrow> b = addr"
  using assms unfolding kernel_sound_def by blast+

lemma page_span_multiple:
  "0 < unat (k_page_size K) \<Longrightarrow> unat len mod unat (k_page_size K) = 0 \<Longrightarrow> page_span K len = unat len"
  by (simp add: page_span_def round_up_multiple)

lemma align_size_multiple:
  "0 < unat b \<Longrightarrow> unat x mod unat b = 0 \<Longrightarrow> GUM_ALIGN_SIZE x b = x"
  by (simp add: GUM_ALIGN_SIZE_def round_up_multiple)

lemma align_pointer_multiple:
  "0 < unat b \<Longrightarrow> unat x mod unat b = 0 \<Longrightarrow> GUM_ALIGN_POINTER x b = x"
  by (simp add: GUM_ALIGN_POINTER_def round_up_multiple)

lemma trim_nothing:
  "GUM_ALIGN_POINTER base alignment = base \<Longrightarrow>
   trim_to_alignment K base sz sz alignment s = (base, sz, s)"
  by (simp add: trim_to_alignment_def)

lemma gum_memory_allocate_page_size:
  assumes snd: "kernel_sound K" and mult: "unat sz mod unat (k_page_size K) = 0"
  shows "gum_memory_allocate K 0 sz (ucast (gum_query_page_size K)) page_prot s =
         Inr (mmap K 0 sz (gum_page_protection_to_posix page_prot) False s)"
proof -
  let ?ps = "ucast (gum_query_page_size K) :: gsize"
  let ?pr = "gum_page_protection_to_posix page_prot"
  have P: "unat ?ps = unat (k_page_size K)"
    by (simp add: gum_query_page_size_def gum_memory_backend_query_page_size_def unat_ucast_page)
  have pos: "0 < unat ?ps"
    using kernel_sound_page_size(1) [OF snd] P by simp
  have hint: "GUM_ALIGN_POINTER 0 ?ps = 0"
    using pos by (simp add: align_pointer_multiple)
  have len: "GUM_ALIGN_SIZE (padded_size sz ?ps ?ps) ?ps = sz"
    using pos mult P by (simp add: padded_size_def align_size_multiple)
  show ?thesis
  proof (cases "k_mmap K s 0 sz ?pr False")
    case None
    then show ?thesis
      by (simp add: gum_memory_allocate_def Let_def hint len gum_allocate_page_aligned_def mmap_def)
  next
    case (Some b)
    have "unat b mod unat ?ps = 0"
      using kernel_sound_mmap(2) [OF snd Some] P by simp
    then have "GUM_ALIGN_POINTER b ?ps = b"
      using pos by (simp add: align_pointer_multiple)
    then show ?thesis
      using Some
      by (simp add: gum_memory_allocate_def Let_def hint len gum_allocate_page_aligned_def
          mmap_def trim_nothing)
  qed
qed

lemma posix_write_bit:
  "GUM_PAGE_WRITE \<in> p \<Longrightarrow> gum_page_protection_to_posix p AND PROT_WRITE \<noteq> 0"
  by (cases "GUM_PAGE_READ \<in> p"; cases "GUM_PAGE_EXECUTE \<in> p")
     (simp_all add: gum_page_protection_to_posix_def PROT_NONE_def PROT_READ_def
        PROT_WRITE_def PROT_EXEC_def)

lemma posix_rw: "gum_page_protection_to_posix GUM_PAGE_RW = 3"
  by (simp add: gum_page_protection_to_posix_def GUM_PAGE_RW_def PROT_NONE_def PROT_READ_def
      PROT_WRITE_def PROT_EXEC_def)

lemma posix_read: "gum_page_protection_to_posix {GUM_PAGE_READ} = PROT_READ"
  by (simp add: gum_page_protection_to_posix_def PROT_NONE_def PROT_READ_def
      PROT_WRITE_def PROT_EXEC_def)

lemma in_region_self: "0 < n \<Longrightarrow> in_region b n b"
  by (simp add: in_region_def)

lemma write_size_header_effect:
  assumes m: "prot_of s b = Some pr0"
    and w: "GUM_PAGE_WRITE \<in> page_prot \<Longrightarrow> pr0 AND PROT_WRITE \<noteq> 0"
    and pos: "0 < unat (k_page_size K)"
  shows "\<exists>s'. write_size_header K b page_prot sz s = Inr s' \<and>
      prot_of s' = (\<lambda>a. if in_region b (unat (k_page_size K)) a \<and> prot_of s a \<noteq> None
                         then Some PROT_READ else prot_of s a) \<and>
      mem s' = (mem s)(b := sz) \<and> errno s' = errno s \<and>
      calls s' = calls s @
        (if GUM_PAGE_WRITE \<in> page_prot then []
         else [Mprotect b (ucast (gum_query_page_size K)) 3])
        @ [Mprotect b (ucast (gum_query_page_size K)) PROT_READ]"
proof -
  have P: "unat (ucast (gum_query_page_size K) :: gsize) = unat (k_page_size K)"
    by (simp add: gum_query_page_size_def gum_memory_backend_query_page_size_def unat_ucast_page)
  have self: "in_region b (unat (k_page_size K)) b"
    using pos by (rule in_region_self)
  show ?thesis
  proof (cases "GUM_PAGE_WRITE \<in> page_prot")
    case True
    with w have "pr0 AND PROT_WRITE \<noteq> 0" by simp
    then show ?thesis
      using True m P
      by (auto simp: write_size_header_def Let_def store_def gum_mprotect_def posix_read
          fun_eq_iff)
  next
    case False
    have "(3 :: gint) AND PROT_WRITE \<noteq> 0" by (simp add: PROT_WRITE_def)
    then show ?thesis
      using False m P self
      by (auto simp: write_size_header_def Let_def store_def gum_mprotect_def posix_read
          posix_rw fun_eq_iff)
  qed
qed

lemma gum_query_page_size_eq: "gum_query_page_size K = k_page_size K"
  by (simp add: gum_query_page_size_def gum_memory_backend_query_page_size_def)

lemma page_size_unat:
  "unat (ucast (gum_query_page_size K) :: gsize) = unat (k_page_size K)"
  by (simp add: gum_query_page_size_def gum_memory_backend_query_page_size_def unat_ucast_page)

lemma required_size_unat:
  "unat (required_size K n) = unat (1 + n) * unat (k_page_size K)"
proof -
  have "unat (1 + n) * unat (k_page_size K) < 2 ^ 32 * 2 ^ 32"
    using mult_strict_mono [OF unat_lt32 [of "1 + n"] unat_lt32 [of "k_page_size K"]] by simp
  then have "unat (ucast (1 + n) :: gsize) * unat (ucast (gum_query_page_size K) :: gsize) < 2 ^ 64"
    by (simp add: unat_ucast_page gum_query_page_size_eq)
  then have "unat (ucast (1 + n) * ucast (gum_query_page_size K) :: gsize) =
      unat (ucast (1 + n) :: gsize) * unat (ucast (gum_query_page_size K) :: gsize)"
    using unat_mult_lem [of "ucast (1 + n) :: gsize" "ucast (gum_query_page_size K)"] by simp
  then show ?thesis
    by (simp add: required_size_def unat_ucast_page gum_query_page_size_eq)
qed

lemma unat_succ32: "1 + (n :: 32 word) \<noteq> 0 \<Longrightarrow> unat (1 + n) = unat n + 1"
  by (metis Suc_eq_plus1 add.commute unatSuc)

lemma required_size_nonzero:
  assumes "required_size K n \<noteq> 0"
  shows "1 + n \<noteq> 0" and "unat (required_size K n) = (unat n + 1) * unat (k_page_size K)"
proof -
  show n: "1 + n \<noteq> 0"
    using assms by (auto simp: required_size_def)
  show "unat (required_size K n) = (unat n + 1) * unat (k_page_size K)"
    by (simp add: required_size_unat unat_succ32 [OF n])
qed

lemma gum_try_alloc_n_pages_result:
  assumes snd: "kernel_sound K"
  shows "(k_mmap K s 0 (required_size K n) (gum_page_protection_to_posix page_prot) False = None \<and>
          gum_try_alloc_n_pages K n page_prot s =
            Inr (None, s\<lparr>calls := calls s @
               [Mmap 0 (required_size K n) (gum_page_protection_to_posix page_prot) False None]\<rparr>)) \<or>
         (\<exists>b s'. k_mmap K s 0 (required_size K n) (gum_page_protection_to_posix page_prot) False = Some b \<and>
            gum_try_alloc_n_pages K n page_prot s =
              Inr (Some (b + ucast (gum_query_page_size K)), s') \<and>
            required_size K n \<noteq> 0 \<and>
            unat b mod unat (k_page_size K) = 0 \<and>
            unat b + unat (required_size K n) \<le> 2 ^ 64 \<and>
            prot_of s' = (\<lambda>a. if in_region b (unat (k_page_size K)) a then Some PROT_READ
                              else if in_region b (unat (required_size K n)) a
                                   then Some (gum_page_protection_to_posix page_prot)
                                   else prot_of s a) \<and>
            mem s' = (mem s)(b := required_size K n) \<and>
            calls s' = calls s @
              Mmap 0 (required_size K n) (gum_page_protection_to_posix page_prot) False (Some b) #
              (if GUM_PAGE_WRITE \<in> page_prot then []
               else [Mprotect b (ucast (gum_query_page_size K)) 3])
              @ [Mprotect b (ucast (gum_query_page_size K)) PROT_READ])"
proof -
  let ?sz = "required_size K n"
  let ?pr = "gum_page_protection_to_posix page_prot"
  let ?P = "unat (k_page_size K)"
  have pos: "0 < ?P" by (rule kernel_sound_page_size(1) [OF snd])
  have mult: "unat ?sz mod ?P = 0" by (simp add: required_size_unat)
  have alloc: "gum_memory_allocate K 0 ?sz (ucast (gum_query_page_size K)) page_prot s =
      Inr (mmap K 0 ?sz ?pr False s)"
    by (rule gum_memory_allocate_page_size [OF snd mult])
  have unfold: "gum_try_alloc_n_pages K n page_prot s =
      (case gum_memory_allocate K 0 ?sz (ucast (gum_query_page_size K)) page_prot s of
         Inl f \<Rightarrow> Inl f
       | Inr (None, s) \<Rightarrow> Inr (None, s)
       | Inr (Some result, s) \<Rightarrow>
           (case write_size_header K result page_prot ?sz s of
              Inl f \<Rightarrow> Inl f
            | Inr s \<Rightarrow> Inr (Some (result + ucast (gum_query_page_size K)), s)))"
    unfolding gum_try_alloc_n_pages_def required_size_def Let_def by (rule refl)
  show ?thesis
  proof (cases "k_mmap K s 0 ?sz ?pr False")
    case None
    then show ?thesis
      by (simp add: unfold alloc mmap_def)
  next
    case (Some b)
    let ?s1 = "s\<lparr>prot_of := (\<lambda>a. if in_region b (page_span K ?sz) a then Some ?pr else prot_of s a),
                   calls := calls s @ [Mmap 0 ?sz ?pr False (Some b)]\<rparr>"
    have nz: "?sz \<noteq> 0" by (rule kernel_sound_mmap(1) [OF snd Some])
    have al: "unat b mod ?P = 0" by (rule kernel_sound_mmap(2) [OF snd Some])
    have span: "page_span K ?sz = unat ?sz"
      using pos mult by (rule page_span_multiple)
    have fit: "unat b + unat ?sz \<le> 2 ^ 64"
      using kernel_sound_mmap(3) [OF snd Some] span by simp
    have big: "?P \<le> unat ?sz"
      using required_size_nonzero(2) [OF nz] by simp
    have here: "prot_of ?s1 b = Some ?pr"
      using pos big span by (simp add: in_region_def)
    from write_size_header_effect [of ?s1 b ?pr page_prot K ?sz, OF here posix_write_bit pos]
    obtain s' where hdr: "write_size_header K b page_prot ?sz ?s1 = Inr s'"
      and pr': "prot_of s' = (\<lambda>a. if in_region b ?P a \<and> prot_of ?s1 a \<noteq> None
                         then Some PROT_READ else prot_of ?s1 a)"
      and mem': "mem s' = (mem ?s1)(b := ?sz)"
      and calls': "calls s' = calls ?s1 @
        (if GUM_PAGE_WRITE \<in> page_prot then []
         else [Mprotect b (ucast (gum_query_page_size K)) 3])
        @ [Mprotect b (ucast (gum_query_page_size K)) PROT_READ]"
      by auto
    have run: "gum_try_alloc_n_pages K n page_prot s =
        Inr (Some (b + ucast (gum_query_page_size K)), s')"
      using Some hdr by (simp add: unfold alloc mmap_def)
    have prot: "prot_of s' = (\<lambda>a. if in_region b ?P a then Some PROT_READ
                              else if in_region b (unat ?sz) a then Some ?pr else prot_of s a)"
      using big by (auto simp: pr' span fun_eq_iff in_region_def)
    show ?thesis
      using Some run nz al fit prot mem' calls' by simp
  qed
qed

section \<open>The near-address allocator: what a scan leaves behind\<close>

lemma near_callback_step:
  "gum_try_alloc_in_range_if_near_enough K (free_range_details r) (ctx, s) =
     (if gap_acceptable (address_spec ctx) (ctx_size ctx) r
      then (case k_mmap K s (candidate_base (address_spec ctx) (ctx_size ctx) r) (ctx_size ctx)
                   (posix_page_prot ctx) True of
              None \<Rightarrow> (True, (ctx\<lparr>ctx_result := None\<rparr>,
                 s\<lparr>calls := calls s @ [Mmap (candidate_base (address_spec ctx) (ctx_size ctx) r)
                      (ctx_size ctx) (posix_page_prot ctx) True None]\<rparr>))
            | Some p \<Rightarrow> (False, (ctx\<lparr>ctx_result := Some p\<rparr>,
                 s\<lparr>prot_of := (\<lambda>a. if in_region p (page_span K (ctx_size ctx)) a
                                   then Some (posix_page_prot ctx) else prot_of s a),
                   calls := calls s @ [Mmap (candidate_base (address_spec ctx) (ctx_size ctx) r)
                      (ctx_size ctx) (posix_page_prot ctx) True (Some p)]\<rparr>)))
      else (True, (ctx, s)))"
  by (auto simp: gum_try_alloc_in_range_if_near_enough_def gap_acceptable_def candidate_base_def
      free_range_details_def Let_def mmap_def not_le not_less split: option.splits)

lemma near_scan_rejects:
  "list_all (\<lambda>g. \<not> gap_acceptable (address_spec ctx) (ctx_size ctx) g) gs \<Longrightarrow>
   deliver (gum_try_alloc_in_range_if_near_enough K) gs (ctx, s) = (ctx, s)"
  by (induction gs) (simp_all add: near_callback_step)

lemma near_scan_outcome:
  assumes snd: "kernel_sound K" and none: "ctx_result ctx = None"
  shows "\<exists>r s'. deliver (gum_try_alloc_in_range_if_near_enough K) gs (ctx, s) =
           (ctx\<lparr>ctx_result := r\<rparr>, s') \<and> scan_outcome K ctx gs s r s'"
proof (induction gs arbitrary: s)
  case Nil
  have "ctx\<lparr>ctx_result := None\<rparr> = ctx" using none by simp
  then have "deliver (gum_try_alloc_in_range_if_near_enough K) [] (ctx, s) =
      (ctx\<lparr>ctx_result := None\<rparr>, s) \<and> scan_outcome K ctx [] s None s"
    by (simp add: scan_outcome_def)
  then show ?case by blast
next
  case (Cons g gs)
  let ?cb = "candidate_base (address_spec ctx) (ctx_size ctx) g"
  have same: "ctx\<lparr>ctx_result := None\<rparr> = ctx" using none by simp
  show ?case
  proof (cases "gap_acceptable (address_spec ctx) (ctx_size ctx) g")
    case False
    from Cons.IH [of s] obtain r s' where
      d: "deliver (gum_try_alloc_in_range_if_near_enough K) gs (ctx, s) = (ctx\<lparr>ctx_result := r\<rparr>, s')"
      and o: "scan_outcome K ctx gs s r s'" by blast
    have "scan_outcome K ctx (g # gs) s r s'"
      using o by (auto simp: scan_outcome_def split: option.splits)
    then show ?thesis
      using False d by (auto simp: near_callback_step)
  next
    case True
    show ?thesis
    proof (cases "k_mmap K s ?cb (ctx_size ctx) (posix_page_prot ctx) True")
      case None
      let ?s1 = "s\<lparr>calls := calls s @ [Mmap ?cb (ctx_size ctx) (posix_page_prot ctx) True None]\<rparr>"
      from Cons.IH [of ?s1] obtain r s' where
        d: "deliver (gum_try_alloc_in_range_if_near_enough K) gs (ctx, ?s1) = (ctx\<lparr>ctx_result := r\<rparr>, s')"
        and o: "scan_outcome K ctx gs ?s1 r s'" by blast
      have "scan_outcome K ctx (g # gs) s r s'"
        using o by (auto simp: scan_outcome_def split: option.splits)
      then show ?thesis
        using True None d same by (auto simp: near_callback_step)
    next
      case (Some p)
      have p: "p = ?cb" by (rule kernel_sound_mmap(4) [OF snd Some]) simp
      let ?s1 = "s\<lparr>prot_of := (\<lambda>a. if in_region p (page_span K (ctx_size ctx)) a
                                   then Some (posix_page_prot ctx) else prot_of s a),
                   calls := calls s @ [Mmap ?cb (ctx_size ctx) (posix_page_prot ctx) True (Some p)]\<rparr>"
      have "scan_outcome K ctx (g # gs) s (Some p) ?s1"
        using True p kernel_sound_mmap(1-3) [OF snd Some]
        by (auto simp: scan_outcome_def)
      then show ?thesis
        using True Some by (auto simp: near_callback_step)
    qed
  qed
qed

lemma gum_try_alloc_n_pages_near_result:
  assumes snd: "kernel_sound K"
  shows "(\<exists>s'. gum_try_alloc_n_pages_near K occupied n page_prot spec s = Inr (None, s') \<and>
            prot_of s' = prot_of s \<and> mem s' = mem s \<and>
            (\<exists>evs. calls s' = calls s @ evs \<and> list_all (\<lambda>e. \<not> is_fixed_mapping e) evs)) \<or>
         (\<exists>b s'. gum_try_alloc_n_pages_near K occupied n page_prot spec s =
              Inr (Some (b + ucast (gum_query_page_size K)), s') \<and>
            list_ex (\<lambda>g. gap_acceptable spec (required_size K n) g \<and>
                          b = candidate_base spec (required_size K n) g) (emitted_ranges occupied) \<and>
            required_size K n \<noteq> 0 \<and>
            unat b mod unat (k_page_size K) = 0 \<and>
            unat b + unat (required_size K n) \<le> 2 ^ 64 \<and>
            prot_of s' = (\<lambda>a. if in_region b (unat (k_page_size K)) a then Some PROT_READ
                              else if in_region b (unat (required_size K n)) a
                                   then Some (gum_page_protection_to_posix page_prot)
                                   else prot_of s a) \<and>
            mem s' = (mem s)(b := required_size K n) \<and>
            (\<exists>evs. calls s' = calls s @ evs @
               Mmap b (required_size K n) (gum_page_protection_to_posix page_prot) True (Some b) #
               (if GUM_PAGE_WRITE \<in> page_prot then []
                else [Mprotect b (ucast (gum_query_page_size K)) 3])
               @ [Mprotect b (ucast (gum_query_page_size K)) PROT_READ] \<and>
               list_all (\<lambda>e. \<not> is_fixed_mapping e) evs))"
proof -
  let ?sz = "required_size K n"
  let ?pr = "gum_page_protection_to_posix page_prot"
  let ?P = "unat (k_page_size K)"
  let ?ps = "ucast (gum_query_page_size K) :: gsize"
  let ?ctx = "\<lparr>ctx_result = None, ctx_size = ?sz, posix_page_prot = ?pr, address_spec = spec\<rparr>"
  have pos: "0 < ?P" by (rule kernel_sound_page_size(1) [OF snd])
  have mult: "unat ?sz mod ?P = 0" by (simp add: required_size_unat)
  have span: "page_span K ?sz = unat ?sz"
    using pos mult by (rule page_span_multiple)
  from near_scan_outcome [OF snd, of ?ctx "emitted_ranges occupied" s]
  obtain r s1 where
    d: "deliver (gum_try_alloc_in_range_if_near_enough K) (emitted_ranges occupied) (?ctx, s) =
          (?ctx\<lparr>ctx_result := r\<rparr>, s1)"
    and o: "scan_outcome K ?ctx (emitted_ranges occupied) s r s1" by auto
  have scan: "gum_enumerate_free_ranges occupied (gum_try_alloc_in_range_if_near_enough K) (?ctx, s) =
      (?ctx\<lparr>ctx_result := r\<rparr>, s1)"
    using d by (simp add: enumerate_free_ranges_deliver emitted_ranges_scan_gaps)
  have unfold: "gum_try_alloc_n_pages_near K occupied n page_prot spec s =
      (case r of
         None \<Rightarrow> Inr (None, s1)
       | Some result \<Rightarrow>
           (case write_size_header K result page_prot ?sz s1 of
              Inl f \<Rightarrow> Inl f
            | Inr s \<Rightarrow> Inr (Some (result + ?ps), s)))"
    using scan unfolding gum_try_alloc_n_pages_near_def required_size_def Let_def
    by (simp split: option.split)
  show ?thesis
  proof (cases r)
    case None
    then show ?thesis
      using o by (simp add: unfold scan_outcome_def)
  next
    case (Some b)
    from o Some have
      ex: "list_ex (\<lambda>g. gap_acceptable spec ?sz g \<and> b = candidate_base spec ?sz g)
             (emitted_ranges occupied)"
      and nz: "?sz \<noteq> 0" and al: "unat b mod ?P = 0"
      and fit: "unat b + unat ?sz \<le> 2 ^ 64"
      and pr1: "prot_of s1 = (\<lambda>a. if in_region b (unat ?sz) a then Some ?pr else prot_of s a)"
      and mem1: "mem s1 = mem s"
      and calls1: "\<exists>evs. calls s1 = calls s @ evs @ [Mmap b ?sz ?pr True (Some b)] \<and>
                    list_all (\<lambda>e. \<not> is_fixed_mapping e) evs"
      by (simp_all add: scan_outcome_def span cong: if_cong)
    have big: "?P \<le> unat ?sz"
      using required_size_nonzero(2) [OF nz] by simp
    have here: "prot_of s1 b = Some ?pr"
      using pos big by (simp add: pr1 in_region_def)
    from write_size_header_effect [of s1 b ?pr page_prot K ?sz, OF here posix_write_bit pos]
    obtain s' where hdr: "write_size_header K b page_prot ?sz s1 = Inr s'"
      and pr': "prot_of s' = (\<lambda>a. if in_region b ?P a \<and> prot_of s1 a \<noteq> None
                         then Some PROT_READ else prot_of s1 a)"
      and mem': "mem s' = (mem s1)(b := ?sz)"
      and calls': "calls s' = calls s1 @
        (if GUM_PAGE_WRITE \<in> page_prot then []
         else [Mprotect b ?ps 3]) @ [Mprotect b ?ps PROT_READ]"
      by auto
    have run: "gum_try_alloc_n_pages_near K occupied n page_prot spec s = Inr (Some (b + ?ps), s')"
      using Some hdr by (simp add: unfold)
    have prot: "prot_of s' = (\<lambda>a. if in_region b ?P a then Some PROT_READ
                              else if in_region b (unat ?sz) a then Some ?pr else prot_of s a)"
      using big by (auto simp: pr' pr1 fun_eq_iff in_region_def)
    from calls1 obtain evs where
      c1: "calls s1 = calls s @ evs @ [Mmap b ?sz ?pr True (Some b)]"
      and fl: "list_all (\<lambda>e. \<not> is_fixed_mapping e) evs" by blast
    have calls: "calls s' = calls s @ evs @ Mmap b ?sz ?pr True (Some b) #
               (if GUM_PAGE_WRITE \<in> page_prot then [] else [Mprotect b ?ps 3])
               @ [Mprotect b ?ps PROT_READ]"
      by (simp add: calls' c1)
    show ?thesis
      apply (rule disjI2)
      apply (rule exI [of _ b])
      apply (rule exI [of _ s'])
      using run ex nz al fit prot calls fl by (simp add: mem' mem1)
  qed
qed

section \<open>Distances, example kernels and the pages of an allocation\<close>

lemma sint_negative_iff: "sint (w :: 64 word) < 0 \<longleftrightarrow> 2 ^ 63 \<le> unat w"
proof -
  have "sint w < 0 \<longleftrightarrow> bit w 63"
    using bit_last_iff [of w] by simp
  also have "\<dots> \<longleftrightarrow> bit (unat w) 63"
    by (simp add: bit_unsigned_iff)
  also have "\<dots> \<longleftrightarrow> odd (unat w div 2 ^ 63)"
    by (simp add: bit_iff_odd_drop_bit drop_bit_eq_div)
  also have "\<dots> \<longleftrightarrow> 2 ^ 63 \<le> unat w"
  proof (cases "unat w < 2 ^ 63")
    case True
    then show ?thesis by simp
  next
    case False
    then have "unat w div 2 ^ 63 = 1"
      using unat_lt64 [of w] by (intro div_nat_eqI) simp_all
    then show ?thesis using False by simp
  qed
  finally show ?thesis .
qed

lemma unat_ABS:
  "unat (ABS d) = (if unat d < 2 ^ 63 then unat d else 2 ^ 64 - unat d)"
proof (cases "unat d < 2 ^ 63")
  case True
  then show ?thesis by (simp add: ABS_def sint_negative_iff)
next
  case False
  then have "unat (- d) = 2 ^ 64 - unat d"
    using unat_sub_if_size [of 0 d] by (simp add: word_size)
  then show ?thesis using False by (simp add: ABS_def sint_negative_iff)
qed

lemma ABS_distance:
  assumes "ABS (a - b) \<le> m" and "distance_between a b < 2 ^ 63"
  shows "distance_between a b \<le> unat m"
proof -
  from assms(1) have le: "unat (ABS (a - b)) \<le> unat m"
    by (simp add: word_le_nat_alt)
  have "unat (ABS (a - b)) = distance_between a b"
    using assms(2) unat_lt64 [of a] unat_lt64 [of b]
    by (auto simp: unat_ABS distance_between_def unat_sub_if_size word_size split: if_splits)
  with le show ?thesis by simp
qed

lemma kernel_sound_example: "kernel_sound (example_kernel place busy adv)"
proof -
  have "is_power_of_two (4096 :: guint)"
    unfolding is_power_of_two_def by (rule exI [of _ 12]) simp
  then show ?thesis
    by (auto simp: kernel_sound_def example_kernel_def page_span_def Let_def split: if_splits)
qed

lemma in_region_mono: "in_region b n a \<Longrightarrow> n \<le> m \<Longrightarrow> in_region b m a"
  by (simp add: in_region_def)

text \<open>
  C3. For every page count \<open>n\<close> of at least 1 and every protection, on a kernel that
  keeps the POSIX guarantees, \<open>gum_try_alloc_n_pages\<close> returns \<open>NULL\<close> (the mapping
  failed, no page changed) or returns \<open>base + page_size\<close> for the region the kernel
  mapped for this call at \<open>base\<close>: the region is page-aligned and has exactly
  \<open>(n + 1) * page_size\<close> bytes, all mapped afterwards, nothing outside it changed; the
  returned address is page-aligned and the \<open>n * page_size\<close> bytes from it on carry the
  requested protection.
\<close>

theorem gum_try_alloc_n_pages_region:
  assumes "kernel_sound K" and "n \<noteq> 0"
  shows "(\<exists>s'. gum_try_alloc_n_pages K n page_prot s = Inr (None, s') \<and> prot_of s' = prot_of s \<and>
            k_mmap K s 0 (required_size K n) (gum_page_protection_to_posix page_prot) False = None) \<or>
         (\<exists>base s'.
            gum_try_alloc_n_pages K n page_prot s =
              Inr (Some (base + ucast (gum_query_page_size K)), s') \<and>
            k_mmap K s 0 (required_size K n) (gum_page_protection_to_posix page_prot) False = Some base \<and>
            unat (required_size K n) = (unat n + 1) * unat (k_page_size K) \<and>
            unat base mod unat (k_page_size K) = 0 \<and>
            unat base + (unat n + 1) * unat (k_page_size K) \<le> 2 ^ 64 \<and>
            unat (base + ucast (gum_query_page_size K)) = unat base + unat (k_page_size K) \<and>
            unat (base + ucast (gum_query_page_size K)) mod unat (k_page_size K) = 0 \<and>
            (\<forall>a. in_region base ((unat n + 1) * unat (k_page_size K)) a \<longrightarrow> prot_of s' a \<noteq> None) \<and>
            (\<forall>a. \<not> in_region base ((unat n + 1) * unat (k_page_size K)) a \<longrightarrow>
                 prot_of s' a = prot_of s a) \<and>
            (\<forall>a. in_region (base + ucast (gum_query_page_size K)) (unat n * unat (k_page_size K)) a \<longrightarrow>
                 prot_of s' a = Some (gum_page_protection_to_posix page_prot)))"
proof -
  let ?sz = "required_size K n"
  let ?P = "unat (k_page_size K)"
  let ?ps = "ucast (gum_query_page_size K) :: gsize"
  let ?pr = "gum_page_protection_to_posix page_prot"
  have pos: "0 < ?P" by (rule kernel_sound_page_size(1) [OF assms(1)])
  from gum_try_alloc_n_pages_result [OF assms(1), of s n page_prot]
  show ?thesis
  proof (elim disjE conjE exE)
    assume "gum_try_alloc_n_pages K n page_prot s =
      Inr (None, s\<lparr>calls := calls s @ [Mmap 0 ?sz ?pr False None]\<rparr>)"
      and "k_mmap K s 0 ?sz ?pr False = None"
    then show ?thesis by simp
  next
    fix b s'
    assume k: "k_mmap K s 0 ?sz ?pr False = Some b"
      and run: "gum_try_alloc_n_pages K n page_prot s = Inr (Some (b + ?ps), s')"
      and nz: "?sz \<noteq> 0" and al: "unat b mod ?P = 0"
      and fit: "unat b + unat ?sz \<le> 2 ^ 64"
      and prot: "prot_of s' = (\<lambda>a. if in_region b ?P a then Some PROT_READ
                              else if in_region b (unat ?sz) a then Some ?pr else prot_of s a)"
    have sz: "unat ?sz = (unat n + 1) * ?P"
      by (rule required_size_nonzero(2) [OF nz])
    have n1: "1 \<le> unat n"
      using assms(2) by (simp add: unat_gt_0 Suc_leI)
    have two: "2 * ?P \<le> unat ?sz"
      using n1 sz by (simp add: mult_le_mono1)
    have "unat b + unat ?ps < 2 ^ 64"
      using fit two pos by (simp add: page_size_unat)
    then have p: "unat (b + ?ps) = unat b + ?P"
      using unat_add_lem [of b ?ps] by (simp add: page_size_unat)
    have pm: "unat (b + ?ps) mod ?P = 0"
      using al by (simp add: p)
    have inside: "in_region (b + ?ps) (unat n * ?P) a \<Longrightarrow>
        \<not> in_region b ?P a \<and> in_region b (unat ?sz) a" for a
      by (auto simp: in_region_def p sz)
    have hdr: "in_region b ?P a \<Longrightarrow> in_region b (unat ?sz) a" for a
      using two by (simp add: in_region_def)
    show ?thesis
      apply (rule disjI2)
      apply (rule exI [of _ b])
      apply (rule exI [of _ s'])
      using run k sz al fit p pm inside hdr
      by (auto simp: prot)
  qed
qed

lemma plain_kernel_page: "gum_query_page_size plain_kernel = 4096"
  by (simp add: gum_query_page_size_eq plain_kernel_def example_kernel_def)

lemma plain_kernel_required_size: "required_size plain_kernel 3 = 16384"
  by (simp add: required_size_def plain_kernel_page)

lemma plain_kernel_mmap:
  "k_mmap plain_kernel s 0 16384 pr False = Some 0x10000"
  by (simp add: plain_kernel_def example_kernel_def round_up_def)

theorem gum_try_alloc_n_pages_region_witness:
  "kernel_sound plain_kernel \<and> (3 :: guint) \<noteq> 0 \<and>
   returned (gum_try_alloc_n_pages plain_kernel 3 GUM_PAGE_RW empty_state) = Inr (Some 0x11000)"
proof -
  have ks: "kernel_sound plain_kernel"
    unfolding plain_kernel_def by (rule kernel_sound_example)
  have nz: "(3 :: guint) \<noteq> 0" by simp
  show ?thesis
    using ks nz gum_try_alloc_n_pages_region [OF ks nz, of GUM_PAGE_RW empty_state]
    by (auto simp: returned_def plain_kernel_required_size plain_kernel_mmap plain_kernel_page)
qed

section \<open>Allocating and freeing pages: the round trip\<close>

lemma word_add_sub_cancel: "(b + x) - x = (b :: 'a::len word)"
  by simp

text \<open>
  C5. After a successful \<open>gum_try_alloc_n_pages\<close> returning \<open>p\<close>, the header at
  \<open>p - page_size\<close> holds the total size \<open>(n + 1) * page_size\<close> and the whole region of that
  size from \<open>p - page_size\<close> on is mapped. \<open>gum_free_pages p\<close> loads that size from the
  header without a fault and issues exactly one \<open>munmap\<close>, of that region; when the
  kernel carries it out, exactly the bytes of the region are unmapped, and when the
  kernel refuses, no page changes.
\<close>

theorem gum_free_pages_round_trip:
  assumes "kernel_sound K"
    and "gum_try_alloc_n_pages K n page_prot s = Inr (Some p, s1)"
  shows "mem s1 (p - ucast (gum_query_page_size K)) = required_size K n \<and>
     unat (required_size K n) = (unat n + 1) * unat (k_page_size K) \<and>
     load s1 (p - ucast (gum_query_page_size K)) = Inr (required_size K n) \<and>
     (\<forall>a. in_region (p - ucast (gum_query_page_size K)) ((unat n + 1) * unat (k_page_size K)) a
          \<longrightarrow> prot_of s1 a \<noteq> None) \<and>
     (\<exists>s2. gum_free_pages K p s1 = Inr s2 \<and>
        calls s2 = calls s1 @
          [Munmap (p - ucast (gum_query_page_size K)) (required_size K n)
             (k_munmap K s1 (p - ucast (gum_query_page_size K)) (required_size K n))] \<and>
        (\<forall>a. prot_of s2 a =
           (if k_munmap K s1 (p - ucast (gum_query_page_size K)) (required_size K n) \<and>
               in_region (p - ucast (gum_query_page_size K)) ((unat n + 1) * unat (k_page_size K)) a
            then None else prot_of s1 a)))"
proof -
  let ?sz = "required_size K n"
  let ?P = "unat (k_page_size K)"
  let ?ps = "ucast (gum_query_page_size K) :: gsize"
  let ?pr = "gum_page_protection_to_posix page_prot"
  have pos: "0 < ?P" by (rule kernel_sound_page_size(1) [OF assms(1)])
  from gum_try_alloc_n_pages_result [OF assms(1), of s n page_prot] assms(2)
  obtain b where p: "p = b + ?ps" and nz: "?sz \<noteq> 0"
    and prot: "prot_of s1 = (\<lambda>a. if in_region b ?P a then Some PROT_READ
                              else if in_region b (unat ?sz) a then Some ?pr else prot_of s a)"
    and mem1: "mem s1 = (mem s)(b := ?sz)"
    by auto
  have start: "p - ?ps = b" by (simp add: p)
  have sz: "unat ?sz = (unat n + 1) * ?P"
    by (rule required_size_nonzero(2) [OF nz])
  have mult: "unat ?sz mod ?P = 0" by (simp add: sz)
  have span: "page_span K ?sz = unat ?sz"
    using pos mult by (rule page_span_multiple)
  have hdr: "prot_of s1 b = Some PROT_READ"
    using pos by (simp add: prot in_region_self)
  have ld: "load s1 b = Inr ?sz"
    using hdr by (simp add: load_def mem1 PROT_READ_def)
  have mapped: "in_region b (unat ?sz) a \<Longrightarrow> prot_of s1 a \<noteq> None" for a
    by (simp add: prot)
  have fr: "gum_free_pages K p s1 = Inr (snd (munmap K b ?sz s1))"
    using ld by (simp add: gum_free_pages_def Let_def start gum_memory_release_def
        gum_memory_free_def)
  show ?thesis
    unfolding start sz [symmetric] fr
    using ld mapped
    by (auto simp: mem1 munmap_def span)
qed

theorem gum_free_pages_round_trip_witness:
  "kernel_sound plain_kernel \<and>
   (\<exists>s1 s2. gum_try_alloc_n_pages plain_kernel 3 GUM_PAGE_RW empty_state = Inr (Some 0x11000, s1) \<and>
      mem s1 0x10000 = 16384 \<and> load s1 0x10000 = Inr 16384 \<and>
      gum_free_pages plain_kernel 0x11000 s1 = Inr s2 \<and>
      calls s2 = calls s1 @ [Munmap 0x10000 16384 True] \<and>
      prot_of s2 0x10000 = None \<and> prot_of s2 0x13FFF = None)"
proof -
  have ks: "kernel_sound plain_kernel"
    unfolding plain_kernel_def by (rule kernel_sound_example)
  from gum_try_alloc_n_pages_result [OF ks, of empty_state 3 GUM_PAGE_RW]
  obtain s1 where run: "gum_try_alloc_n_pages plain_kernel 3 GUM_PAGE_RW empty_state =
      Inr (Some 0x11000, s1)"
    by (auto simp: plain_kernel_required_size plain_kernel_mmap plain_kernel_page)
  have mu: "k_munmap plain_kernel s1 0x10000 16384"
    by (simp add: plain_kernel_def example_kernel_def)
  have P: "unat (k_page_size plain_kernel) = 4096"
    by (simp add: plain_kernel_def example_kernel_def)
  from gum_free_pages_round_trip [OF ks run]
  show ?thesis
    using ks run
    by (auto simp: plain_kernel_required_size plain_kernel_page mu P in_region_def)
qed

section \<open>The hidden header page\<close>

lemma header_sealed_from_state:
  assumes pos: "0 < unat (k_page_size K)"
    and nz: "required_size K n \<noteq> 0"
    and fit: "unat b + unat (required_size K n) \<le> 2 ^ 64"
    and prot: "prot_of s' = (\<lambda>a. if in_region b (unat (k_page_size K)) a then Some PROT_READ
                              else if in_region b (unat (required_size K n)) a
                                   then Some (gum_page_protection_to_posix page_prot)
                                   else prot_of s a)"
    and mem': "mem s' = (mem s)(b := required_size K n)"
    and calls': "\<exists>before. calls s' = before @ [Mprotect b (ucast (gum_query_page_size K)) PROT_READ]"
  shows "header_sealed K n page_prot (b + ucast (gum_query_page_size K)) s'"
proof -
  let ?sz = "required_size K n"
  let ?P = "unat (k_page_size K)"
  let ?ps = "ucast (gum_query_page_size K) :: gsize"
  have start: "b + ?ps - ?ps = b" by simp
  have sz: "unat ?sz = (unat n + 1) * ?P"
    by (rule required_size_nonzero(2) [OF nz])
  have hdr: "prot_of s' b = Some PROT_READ"
    using pos by (simp add: prot in_region_self)
  have st: "store s' b v = Inl Segfault" for v
    using hdr by (simp add: store_def PROT_READ_def PROT_WRITE_def)
  have usable: "prot_of s' a = Some (gum_page_protection_to_posix page_prot)"
    if a: "in_region (b + ?ps) (unat n * ?P) a" for a
  proof (cases "unat n = 0")
    case True
    with a show ?thesis by (auto simp: in_region_def)
  next
    case False
    then have "2 * ?P \<le> unat ?sz"
      using sz by (simp add: mult_le_mono1)
    then have "unat b + unat ?ps < 2 ^ 64"
      using fit pos by (simp add: page_size_unat)
    then have p: "unat (b + ?ps) = unat b + ?P"
      using unat_add_lem [of b ?ps] by (simp add: page_size_unat)
    from a show ?thesis
      by (auto simp: prot in_region_def p sz)
  qed
  show ?thesis
    unfolding header_sealed_def start
    using st usable calls' by (auto simp: mem' prot)
qed

text \<open>
  C9. On a kernel that keeps the POSIX guarantees, whenever \<open>gum_try_alloc_n_pages\<close> or
  \<open>gum_try_alloc_n_pages_near\<close> returns an address \<open>p\<close>, whatever protection was requested
  (with or without Write): the header at \<open>p - page_size\<close> holds the total size, the
  \<open>mprotect\<close> of the header page to read-only is the last call issued, every byte of the
  header page is \<open>PROT_READ\<close> and a store to the header faults, while the \<open>n\<close> pages from
  \<open>p\<close> on keep the requested protection.
\<close>

theorem header_page_is_read_only:
  assumes "kernel_sound K"
  shows "(\<forall>p s1. gum_try_alloc_n_pages K n page_prot s = Inr (Some p, s1) \<longrightarrow>
            header_sealed K n page_prot p s1) \<and>
         (\<forall>p s1. gum_try_alloc_n_pages_near K occupied n page_prot spec s = Inr (Some p, s1) \<longrightarrow>
            header_sealed K n page_prot p s1)"
proof (intro conjI allI impI)
  have pos: "0 < unat (k_page_size K)" by (rule kernel_sound_page_size(1) [OF assms])
  fix p s1
  assume run: "gum_try_alloc_n_pages K n page_prot s = Inr (Some p, s1)"
  from gum_try_alloc_n_pages_result [OF assms, of s n page_prot] run
  obtain b where p: "p = b + ucast (gum_query_page_size K)"
    and nz: "required_size K n \<noteq> 0"
    and fit: "unat b + unat (required_size K n) \<le> 2 ^ 64"
    and prot: "prot_of s1 = (\<lambda>a. if in_region b (unat (k_page_size K)) a then Some PROT_READ
                              else if in_region b (unat (required_size K n)) a
                                   then Some (gum_page_protection_to_posix page_prot)
                                   else prot_of s a)"
    and mem1: "mem s1 = (mem s)(b := required_size K n)"
    and calls1: "\<exists>before. calls s1 =
        before @ [Mprotect b (ucast (gum_query_page_size K)) PROT_READ]"
    by auto
  show "header_sealed K n page_prot p s1"
    unfolding p by (rule header_sealed_from_state [OF pos nz fit prot mem1 calls1])
next
  have pos: "0 < unat (k_page_size K)" by (rule kernel_sound_page_size(1) [OF assms])
  fix p s1
  assume run: "gum_try_alloc_n_pages_near K occupied n page_prot spec s = Inr (Some p, s1)"
  from gum_try_alloc_n_pages_near_result [OF assms, of occupied n page_prot spec s] run
  obtain b where p: "p = b + ucast (gum_query_page_size K)"
    and nz: "required_size K n \<noteq> 0"
    and fit: "unat b + unat (required_size K n) \<le> 2 ^ 64"
    and prot: "prot_of s1 = (\<lambda>a. if in_region b (unat (k_page_size K)) a then Some PROT_READ
                              else if in_region b (unat (required_size K n)) a
                                   then Some (gum_page_protection_to_posix page_prot)
                                   else prot_of s a)"
    and mem1: "mem s1 = (mem s)(b := required_size K n)"
    and calls1: "\<exists>before. calls s1 =
        before @ [Mprotect b (ucast (gum_query_page_size K)) PROT_READ]"
    by (auto simp flip: append_assoc append_Cons)
  show "header_sealed K n page_prot p s1"
    unfolding p by (rule header_sealed_from_state [OF pos nz fit prot mem1 calls1])
qed

lemma two_occupied_gaps:
  "scan_gaps 0 (map details_range two_occupied) = [\<lparr>base_address = 0x20000, range_size = 0x20000\<rparr>]"
  by (simp add: two_occupied_def occupied_range_def)

lemma near_first_gap_mapped:
  assumes pos: "0 < unat (k_page_size K)"
    and gaps: "scan_gaps 0 (map details_range occupied) = g # gs"
    and acc: "gap_acceptable spec (required_size K n) g"
    and km: "k_mmap K s (candidate_base spec (required_size K n) g) (required_size K n)
               (gum_page_protection_to_posix page_prot) True = Some b"
    and big: "0 < page_span K (required_size K n)"
  shows "\<exists>s1. gum_try_alloc_n_pages_near K occupied n page_prot spec s =
           Inr (Some (b + ucast (gum_query_page_size K)), s1)"
proof -
  let ?sz = "required_size K n"
  let ?pr = "gum_page_protection_to_posix page_prot"
  let ?ctx = "\<lparr>ctx_result = None, ctx_size = ?sz, posix_page_prot = ?pr, address_spec = spec\<rparr>"
  let ?s1 = "s\<lparr>prot_of := (\<lambda>a. if in_region b (page_span K ?sz) a then Some ?pr else prot_of s a),
               calls := calls s @ [Mmap (candidate_base spec ?sz g) ?sz ?pr True (Some b)]\<rparr>"
  have scan: "gum_enumerate_free_ranges occupied (gum_try_alloc_in_range_if_near_enough K) (?ctx, s) =
      (?ctx\<lparr>ctx_result := Some b\<rparr>, ?s1)"
    using acc km
    by (simp add: enumerate_free_ranges_deliver gaps near_callback_step cong: if_cong)
  have here: "prot_of ?s1 b = Some ?pr"
    using big by (simp add: in_region_self)
  from write_size_header_effect [of ?s1 b ?pr page_prot K ?sz, OF here posix_write_bit pos]
  obtain s' where hdr: "write_size_header K b page_prot ?sz ?s1 = Inr s'"
    by auto
  have "gum_try_alloc_n_pages_near K occupied n page_prot spec s =
      Inr (Some (b + ucast (gum_query_page_size K)), s')"
    using scan hdr unfolding gum_try_alloc_n_pages_near_def required_size_def Let_def
    by simp
  then show ?thesis by blast
qed

lemma plain_kernel_fixed:
  "k_mmap plain_kernel s 0x20000 8192 pr True = Some 0x20000"
  by (simp add: plain_kernel_def example_kernel_def round_up_def nothing_busy_def)

lemma plain_kernel_required_size_1: "required_size plain_kernel 1 = 8192"
  by (simp add: required_size_def plain_kernel_page)

lemma example_gap_acceptable:
  "gap_acceptable \<lparr>near_address = 0x1F000, max_distance = 0x1000\<rparr> 8192
     \<lparr>base_address = 0x20000, range_size = 0x20000\<rparr>"
  by (simp add: gap_acceptable_def ABS_def)

lemma example_candidate_base:
  "candidate_base \<lparr>near_address = 0x1F000, max_distance = 0x1000\<rparr> 8192
     \<lparr>base_address = 0x20000, range_size = 0x20000\<rparr> = 0x20000"
  by (simp add: candidate_base_def ABS_def)

lemma near_plain_run:
  "\<exists>s1. gum_try_alloc_n_pages_near plain_kernel two_occupied 1 GUM_PAGE_RW
      \<lparr>near_address = 0x1F000, max_distance = 0x1000\<rparr> empty_state = Inr (Some 0x21000, s1)"
proof -
  have pos: "0 < unat (k_page_size plain_kernel)"
    by (simp add: plain_kernel_def example_kernel_def)
  have "page_span plain_kernel 8192 = 8192"
    by (simp add: page_span_def round_up_def plain_kernel_def example_kernel_def)
  then have big: "0 < page_span plain_kernel (required_size plain_kernel 1)"
    by (simp only: plain_kernel_required_size_1)
  from near_first_gap_mapped [OF pos, of two_occupied _ _ _ 1 empty_state GUM_PAGE_RW "0x20000",
      OF two_occupied_gaps _ _ big]
  show ?thesis
    by (simp add: plain_kernel_required_size_1 example_gap_acceptable example_candidate_base
        plain_kernel_fixed plain_kernel_page)
qed

theorem header_page_is_read_only_witness:
  "kernel_sound plain_kernel \<and>
   (\<exists>s1. gum_try_alloc_n_pages plain_kernel 3 {GUM_PAGE_READ} empty_state = Inr (Some 0x11000, s1) \<and>
      header_sealed plain_kernel 3 {GUM_PAGE_READ} 0x11000 s1 \<and>
      mem s1 0x10000 = 16384 \<and> prot_of s1 0x10000 = Some PROT_READ \<and>
      prot_of s1 0x11000 = Some PROT_READ) \<and>
   (\<exists>s1. gum_try_alloc_n_pages_near plain_kernel two_occupied 1 GUM_PAGE_RW
        \<lparr>near_address = 0x1F000, max_distance = 0x1000\<rparr> empty_state = Inr (Some 0x21000, s1) \<and>
      header_sealed plain_kernel 1 GUM_PAGE_RW 0x21000 s1 \<and>
      mem s1 0x20000 = 8192 \<and> prot_of s1 0x20000 = Some PROT_READ \<and>
      prot_of s1 0x21000 = Some (PROT_READ OR PROT_WRITE))"
proof -
  have ks: "kernel_sound plain_kernel"
    unfolding plain_kernel_def by (rule kernel_sound_example)
  have P: "unat (k_page_size plain_kernel) = 4096"
    by (simp add: plain_kernel_def example_kernel_def)
  note inst = header_page_is_read_only [OF ks, of 3 "{GUM_PAGE_READ}" empty_state]
    header_page_is_read_only [OF ks, of 1 GUM_PAGE_RW empty_state two_occupied
      "\<lparr>near_address = 0x1F000, max_distance = 0x1000\<rparr>"]
  from gum_try_alloc_n_pages_result [OF ks, of empty_state 3 "{GUM_PAGE_READ}"]
  obtain s1 where run1: "gum_try_alloc_n_pages plain_kernel 3 {GUM_PAGE_READ} empty_state =
      Inr (Some 0x11000, s1)"
    by (auto simp: plain_kernel_required_size plain_kernel_mmap plain_kernel_page)
  from inst(1) run1 have h1: "header_sealed plain_kernel 3 {GUM_PAGE_READ} 0x11000 s1"
    by blast
  from near_plain_run obtain s2 where
    run2: "gum_try_alloc_n_pages_near plain_kernel two_occupied 1 GUM_PAGE_RW
        \<lparr>near_address = 0x1F000, max_distance = 0x1000\<rparr> empty_state = Inr (Some 0x21000, s2)"
    by blast
  from inst(2) run2 have h2: "header_sealed plain_kernel 1 GUM_PAGE_RW 0x21000 s2"
    by blast
  have f1: "mem s1 0x10000 = 16384 \<and> prot_of s1 0x10000 = Some PROT_READ \<and>
      prot_of s1 0x11000 = Some PROT_READ"
    using h1 by (simp add: header_sealed_def plain_kernel_page plain_kernel_required_size P
        in_region_def posix_read)
  have f2: "mem s2 0x20000 = 8192 \<and> prot_of s2 0x20000 = Some PROT_READ \<and>
      prot_of s2 0x21000 = Some (PROT_READ OR PROT_WRITE)"
    using h2 by (simp add: header_sealed_def plain_kernel_page plain_kernel_required_size_1 P
        in_region_def posix_rw PROT_READ_def PROT_WRITE_def)
  show ?thesis
    using ks run1 h1 f1 run2 h2 f2 by blast
qed

section \<open>The near-address allocator: the distance bound\<close>

lemma gap_acceptable_candidate:
  "gap_acceptable spec required g \<Longrightarrow>
   ABS (near_address spec - candidate_base spec required g) \<le> max_distance spec"
  by (auto simp: gap_acceptable_def candidate_base_def)

text \<open>
  C1, as the code has it. On a kernel that keeps the POSIX guarantees, when
  \<open>gum_try_alloc_n_pages_near\<close> returns \<open>p\<close>, the distance to the target that is at
  most \<open>max_distance\<close> is the one of the base of the mapped region, \<open>p - page_size\<close> (its
  header page), computed as the absolute value of the signed 64-bit difference; that is
  the distance between the two addresses whenever this is below 2^63. When none of the
  free ranges the scanner emits holds the required size \<open>(n + 1) * page_size\<close> with its
  base, or the base of the required size put at its end, within \<open>max_distance\<close> of the
  target, the call returns \<open>NULL\<close> and leaves the process as it was. For an ascending feed
  the emitted ranges are the gaps between consecutive occupied ranges.
\<close>

theorem near_allocation_distance_bound:
  assumes "kernel_sound K"
  shows "(\<forall>p s'. gum_try_alloc_n_pages_near K occupied n page_prot spec s = Inr (Some p, s') \<longrightarrow>
            ABS (near_address spec - (p - ucast (gum_query_page_size K))) \<le> max_distance spec \<and>
            (distance_between (near_address spec) (p - ucast (gum_query_page_size K)) < 2 ^ 63 \<longrightarrow>
             distance_between (near_address spec) (p - ucast (gum_query_page_size K))
               \<le> unat (max_distance spec))) \<and>
         (list_all (\<lambda>g. \<not> gap_acceptable spec (required_size K n) g) (emitted_ranges occupied) \<longrightarrow>
            gum_try_alloc_n_pages_near K occupied n page_prot spec s = Inr (None, s)) \<and>
         (ascending (map details_range occupied) \<longrightarrow>
            emitted_ranges occupied = gaps_between (map details_range occupied))"
proof (intro conjI allI impI)
  fix p s'
  assume run: "gum_try_alloc_n_pages_near K occupied n page_prot spec s = Inr (Some p, s')"
  from gum_try_alloc_n_pages_near_result [OF assms, of occupied n page_prot spec s] run
  obtain b where p: "p = b + ucast (gum_query_page_size K)"
    and ex: "list_ex (\<lambda>g. gap_acceptable spec (required_size K n) g \<and>
                          b = candidate_base spec (required_size K n) g) (emitted_ranges occupied)"
    by auto
  have start: "p - ucast (gum_query_page_size K) = b" by (simp add: p)
  from ex show d: "ABS (near_address spec - (p - ucast (gum_query_page_size K))) \<le> max_distance spec"
    unfolding start by (auto simp: list_ex_iff gap_acceptable_candidate)
  assume "distance_between (near_address spec) (p - ucast (gum_query_page_size K)) < 2 ^ 63"
  with d show "distance_between (near_address spec) (p - ucast (gum_query_page_size K))
      \<le> unat (max_distance spec)"
    by (rule ABS_distance)
next
  assume "list_all (\<lambda>g. \<not> gap_acceptable spec (required_size K n) g) (emitted_ranges occupied)"
  then have "deliver (gum_try_alloc_in_range_if_near_enough K) (emitted_ranges occupied)
      (\<lparr>ctx_result = None, ctx_size = required_size K n,
        posix_page_prot = gum_page_protection_to_posix page_prot, address_spec = spec\<rparr>, s) =
      (\<lparr>ctx_result = None, ctx_size = required_size K n,
        posix_page_prot = gum_page_protection_to_posix page_prot, address_spec = spec\<rparr>, s)"
    by (intro near_scan_rejects) simp
  then show "gum_try_alloc_n_pages_near K occupied n page_prot spec s = Inr (None, s)"
    unfolding gum_try_alloc_n_pages_near_def required_size_def Let_def
    by (simp add: enumerate_free_ranges_deliver emitted_ranges_scan_gaps)
next
  assume "ascending (map details_range occupied)"
  then show "emitted_ranges occupied = gaps_between (map details_range occupied)"
    by (simp add: emitted_ranges_scan_gaps scan_gaps_ascending0)
qed

lemma two_occupied_emitted:
  "emitted_ranges two_occupied = [\<lparr>base_address = 0x20000, range_size = 0x20000\<rparr>]"
  by (simp add: emitted_ranges_scan_gaps two_occupied_gaps)

lemma example_gap_too_far:
  "\<not> gap_acceptable \<lparr>near_address = 0x1F000, max_distance = 0x10\<rparr> 8192
     \<lparr>base_address = 0x20000, range_size = 0x20000\<rparr>"
  by (simp add: gap_acceptable_def ABS_def)

theorem near_allocation_distance_bound_witness:
  "kernel_sound plain_kernel \<and>
   (\<exists>s1. gum_try_alloc_n_pages_near plain_kernel two_occupied 1 GUM_PAGE_RW
        \<lparr>near_address = 0x1F000, max_distance = 0x1000\<rparr> empty_state = Inr (Some 0x21000, s1)) \<and>
   ABS (0x1F000 - (0x21000 - 0x1000)) \<le> (0x1000 :: gsize) \<and>
   distance_between 0x1F000 (0x21000 - 0x1000) \<le> unat (0x1000 :: gsize) \<and>
   list_all (\<lambda>g. \<not> gap_acceptable \<lparr>near_address = 0x1F000, max_distance = 0x10\<rparr>
                     (required_size plain_kernel 1) g) (emitted_ranges two_occupied) \<and>
   gum_try_alloc_n_pages_near plain_kernel two_occupied 1 GUM_PAGE_RW
        \<lparr>near_address = 0x1F000, max_distance = 0x10\<rparr> empty_state = Inr (None, empty_state)"
proof -
  have ks: "kernel_sound plain_kernel"
    unfolding plain_kernel_def by (rule kernel_sound_example)
  from near_plain_run obtain s1 where
    run: "gum_try_alloc_n_pages_near plain_kernel two_occupied 1 GUM_PAGE_RW
        \<lparr>near_address = 0x1F000, max_distance = 0x1000\<rparr> empty_state = Inr (Some 0x21000, s1)"
    by blast
  have far: "list_all (\<lambda>g. \<not> gap_acceptable \<lparr>near_address = 0x1F000, max_distance = 0x10\<rparr>
                     (required_size plain_kernel 1) g) (emitted_ranges two_occupied)"
    by (simp add: two_occupied_emitted plain_kernel_required_size_1 example_gap_too_far)
  have small: "distance_between 0x1F000 (0x21000 - 0x1000) < 2 ^ 63"
    by (simp add: distance_between_def)
  from near_allocation_distance_bound [OF ks, of two_occupied 1 GUM_PAGE_RW
      "\<lparr>near_address = 0x1F000, max_distance = 0x1000\<rparr>" empty_state] run small
  have near: "ABS (0x1F000 - (0x21000 - 0x1000)) \<le> (0x1000 :: gsize) \<and>
      distance_between 0x1F000 (0x21000 - 0x1000) \<le> unat (0x1000 :: gsize)"
    by (simp add: plain_kernel_page)
  from near_allocation_distance_bound [OF ks, of two_occupied 1 GUM_PAGE_RW
      "\<lparr>near_address = 0x1F000, max_distance = 0x10\<rparr>" empty_state] far
  have none: "gum_try_alloc_n_pages_near plain_kernel two_occupied 1 GUM_PAGE_RW
        \<lparr>near_address = 0x1F000, max_distance = 0x10\<rparr> empty_state = Inr (None, empty_state)"
    by blast
  show ?thesis
    using ks run near far none by blast
qed

theorem near_allocation_distance_counterexample:
  "returned (gum_try_alloc_n_pages_near plain_kernel two_occupied 1 GUM_PAGE_RW
        \<lparr>near_address = 0x1F000, max_distance = 0x1000\<rparr> empty_state) = Inr (Some 0x21000) \<and>
   \<not> distance_between 0x1F000 0x21000 \<le> unat (0x1000 :: gsize) \<and>
   \<not> distance_between 0x1F000 (0x21000 + 0x1000) \<le> unat (0x1000 :: gsize)"
proof -
  from near_plain_run obtain s1 where
    run: "gum_try_alloc_n_pages_near plain_kernel two_occupied 1 GUM_PAGE_RW
        \<lparr>near_address = 0x1F000, max_distance = 0x1000\<rparr> empty_state = Inr (Some 0x21000, s1)"
    by blast
  show ?thesis
    by (simp add: run returned_def distance_between_def)
qed

section \<open>The near-address allocator: failed mappings\<close>










section \<open>The raw allocator: alignment and trimming\<close>

lemma munmap_page_multiple:
  assumes pos: "0 < unat (k_page_size K)" and mult: "unat len mod unat (k_page_size K) = 0"
  shows "munmap K addr len s =
     (k_munmap K s addr len,
      s\<lparr>prot_of := (\<lambda>a. if k_munmap K s addr len \<and> in_region addr (unat len) a
                        then None else prot_of s a),
        calls := calls s @ [Munmap addr len (k_munmap K s addr len)]\<rparr>)"
  by (simp add: munmap_def page_span_multiple [OF pos mult])

lemma trim_effect:
  fixes base len sz alignment :: gsize
  assumes pos: "0 < unat (k_page_size K)"
    and B: "unat base mod unat (k_page_size K) = 0"
    and L: "unat len mod unat (k_page_size K) = 0"
    and S: "unat sz mod unat (k_page_size K) = 0"
    and A: "unat (GUM_ALIGN_POINTER base alignment) mod unat (k_page_size K) = 0"
    and le: "unat base \<le> unat (GUM_ALIGN_POINTER base alignment)"
    and fit: "unat (GUM_ALIGN_POINTER base alignment) + unat sz \<le> unat base + unat len"
    and top: "unat base + unat len \<le> 2 ^ 64"
    and snz: "sz \<noteq> 0"
  shows "\<exists>s' ok1 ok2. trim_to_alignment K base len sz alignment s =
            (GUM_ALIGN_POINTER base alignment, sz, s') \<and>
          calls s' = calls s @
            (if GUM_ALIGN_POINTER base alignment = base then []
             else [Munmap base (GUM_ALIGN_POINTER base alignment - base) ok1]) @
            (if len - (GUM_ALIGN_POINTER base alignment - base) = sz then []
             else [Munmap (GUM_ALIGN_POINTER base alignment + sz)
                     (len - (GUM_ALIGN_POINTER base alignment - base) - sz) ok2]) \<and>
          (\<forall>x. in_region (GUM_ALIGN_POINTER base alignment) (unat sz) x \<or>
               \<not> in_region base (unat len) x \<longrightarrow> prot_of s' x = prot_of s x) \<and>
          ((GUM_ALIGN_POINTER base alignment \<noteq> base \<longrightarrow> ok1) \<and>
           (len - (GUM_ALIGN_POINTER base alignment - base) \<noteq> sz \<longrightarrow> ok2) \<longrightarrow>
             prot_of s' = (\<lambda>x. if in_region base (unat len) x \<and>
                               \<not> in_region (GUM_ALIGN_POINTER base alignment) (unat sz) x
                            then None else prot_of s x))"
proof -
  let ?P = "unat (k_page_size K)"
  let ?ab = "GUM_ALIGN_POINTER base alignment"
  let ?prefix = "?ab - base"
  have pre: "unat ?prefix = unat ?ab - unat base"
    using le by (simp add: unat_sub_if_size)
  have pre_le: "unat ?prefix \<le> unat len"
    using fit le pre by simp
  have rem: "unat (len - ?prefix) = unat len - (unat ?ab - unat base)"
    using pre_le pre by (simp add: unat_sub_if_size)
  have pm: "unat ?prefix mod ?P = 0"
    using A B le pre by (metis dvd_diff_nat dvd_eq_mod_eq_0)
  have same: "?ab = base \<Longrightarrow> unat ?ab = unat base" by simp
  \<comment> \<open>the state and the size after the prefix\<close>
  define ok1 where "ok1 = k_munmap K s base ?prefix"
  define s1 where "s1 = (if ?ab \<noteq> base then snd (gum_memory_free K base ?prefix s) else s)"
  define a1 where "a1 = len - ?prefix"
  define t1 where "t1 = (if ?ab = base then [] else [Munmap base ?prefix ok1])"
  have a1: "unat a1 = unat base + unat len - unat ?ab"
    using le fit rem by (auto simp: a1_def)
  have a1': "(if ?ab \<noteq> base then len - ?prefix else len) = a1"
    by (simp add: a1_def)
  have s1: "prot_of s1 = (\<lambda>x. if ?ab \<noteq> base \<and> ok1 \<and>
                 unat base \<le> unat x \<and> unat x < unat ?ab then None else prot_of s x)"
    using le by (auto simp: s1_def gum_memory_free_def munmap_page_multiple [OF pos pm] ok1_def
        pre in_region_def fun_eq_iff)
  have c1: "calls s1 = calls s @ t1"
    by (simp add: s1_def t1_def gum_memory_free_def munmap_page_multiple [OF pos pm] ok1_def)
  have sle: "unat sz \<le> unat a1"
    using fit a1 by simp
  have suf: "unat (a1 - sz) = unat base + unat len - unat ?ab - unat sz"
    using sle a1 by (simp add: unat_sub_if_size)
  have sm: "unat (a1 - sz) mod ?P = 0"
  proof -
    have "?P dvd unat a1"
      using A B L le a1 by (metis dvd_add dvd_diff_nat dvd_eq_mod_eq_0)
    then show ?thesis
      using S suf a1 by (metis dvd_diff_nat dvd_eq_mod_eq_0)
  qed
  have addr: "unat (?ab + sz) = unat ?ab + unat sz" if "a1 \<noteq> sz"
  proof -
    from that have "a1 - sz \<noteq> 0" by simp
    then have "0 < unat (a1 - sz)" by (simp add: unat_gt_0)
    then have "unat ?ab + unat sz < unat base + unat len"
      using suf by arith
    then have "unat ?ab + unat sz < 2 ^ 64" using top by simp
    then show ?thesis
      using unat_add_lem [of ?ab sz] by simp
  qed
  have full: "unat base + unat len = unat ?ab + unat sz" if "a1 = sz"
    using that a1 fit by simp
  define ok2 where "ok2 = k_munmap K s1 (?ab + sz) (a1 - sz)"
  define s2 where "s2 = (if a1 \<noteq> sz then snd (gum_memory_free K (?ab + sz) (a1 - sz) s1) else s1)"
  define t2 where "t2 = (if a1 = sz then [] else [Munmap (?ab + sz) (a1 - sz) ok2])"
  have s2: "prot_of s2 = (\<lambda>x. if a1 \<noteq> sz \<and> ok2 \<and>
                 unat ?ab + unat sz \<le> unat x \<and> unat x < unat base + unat len
               then None else prot_of s1 x)"
    using fit addr
    by (auto simp: s2_def gum_memory_free_def munmap_page_multiple [OF pos sm] ok2_def
        suf in_region_def fun_eq_iff)
  have c2: "calls s2 = calls s @ t1 @ t2"
    by (simp add: s2_def t2_def gum_memory_free_def munmap_page_multiple [OF pos sm] ok2_def c1)
  have run: "trim_to_alignment K base len sz alignment s = (?ab, sz, s2)"
    unfolding trim_to_alignment_def Let_def
    by (auto simp: s2_def s1_def a1_def split: prod.splits)
  have keep: "\<forall>x. in_region ?ab (unat sz) x \<or> \<not> in_region base (unat len) x \<longrightarrow>
      prot_of s2 x = prot_of s x"
    using le fit by (auto simp: s2 s1 in_region_def)
  have exact: "prot_of s2 = (\<lambda>x. if in_region base (unat len) x \<and> \<not> in_region ?ab (unat sz) x
                            then None else prot_of s x)"
    if o1: "?ab \<noteq> base \<longrightarrow> ok1" and o2: "a1 \<noteq> sz \<longrightarrow> ok2"
  proof (rule ext)
    fix x
    show "prot_of s2 x = (if in_region base (unat len) x \<and> \<not> in_region ?ab (unat sz) x
                          then None else prot_of s x)"
      using o1 o2 le fit full same
      by (cases "?ab = base"; cases "a1 = sz") (auto simp: s2 s1 in_region_def)
  qed
  show ?thesis
    apply (rule exI [of _ s2])
    apply (rule exI [of _ ok1])
    apply (rule exI [of _ ok2])
    using run c2 keep exact unfolding t1_def t2_def a1_def by blast
qed

lemma unat_of_nat64: "n < 2 ^ 64 \<Longrightarrow> unat (word_of_nat n :: 64 word) = n"
  by (simp add: unat_of_nat)

lemma round_up_between:
  assumes "0 < b" and "s mod b = 0" and "x \<le> s" and "s < x + b"
  shows "round_up x b = s"
proof -
  let ?r = "round_up x b"
  have r: "x \<le> ?r" "?r < x + b" "?r mod b = 0"
    using assms(1) by (simp_all add: round_up_ge round_up_lt round_up_mod)
  show ?thesis
  proof (cases "?r \<le> s")
    case True
    have "b dvd s - ?r" using assms(2) r(3) by (metis dvd_diff_nat dvd_eq_mod_eq_0)
    moreover have "s - ?r < b" using r(1) assms(1,4) by arith
    ultimately have "s - ?r = 0" by (meson dvd_imp_le not_less zero_less_iff_neq_zero)
    with True show ?thesis by simp
  next
    case False
    have "b dvd ?r - s" using assms(2) r(3) by (metis dvd_diff_nat dvd_eq_mod_eq_0)
    moreover have "?r - s < b" using r(2) assms(1,3) by arith
    ultimately have "?r - s = 0" by (meson dvd_imp_le not_less zero_less_iff_neq_zero)
    with False show ?thesis by simp
  qed
qed

lemma padded_size_unat:
  fixes sz alignment ps :: gsize
  assumes "unat ps \<le> unat sz" and "unat sz + unat alignment \<le> 2 ^ 64" and "0 < unat ps"
  shows "unat (padded_size sz alignment ps) = unat sz + unat alignment - unat ps"
proof (cases "unat ps \<le> unat alignment")
  case True
  then have d: "unat (alignment - ps) = unat alignment - unat ps"
    by (simp add: unat_sub_if_size)
  have "unat sz + unat (alignment - ps) < 2 ^ 64"
    using assms True d by simp
  then have "unat (sz + (alignment - ps)) = unat sz + unat (alignment - ps)"
    using unat_add_lem [of sz "alignment - ps"] by simp
  then show ?thesis using True d by (simp add: padded_size_def)
next
  case False
  then have d: "unat (alignment - ps) = unat alignment + 2 ^ 64 - unat ps"
    by (simp add: unat_sub_if_size word_size)
  have "\<not> unat sz + unat (alignment - ps) < 2 ^ 64"
    using assms False d by simp
  then have "unat (sz + (alignment - ps)) = unat sz + unat (alignment - ps) - 2 ^ 64"
    by (simp add: unat_plus_if')
  then show ?thesis
    using assms False d unat_lt64 [of ps] by (simp add: padded_size_def)
qed

lemma allocation_length:
  fixes sz alignment ps :: gsize
  assumes pos: "0 < unat ps" and apos: "0 < unat alignment"
    and S: "unat sz mod unat ps = 0" and snz: "sz \<noteq> 0"
    and fit: "unat sz + unat alignment \<le> 2 ^ 64"
    and dv: "unat ps < unat alignment \<Longrightarrow> unat ps dvd unat alignment"
  shows "unat (GUM_ALIGN_SIZE (padded_size sz alignment ps) ps) =
         (if unat alignment \<le> unat ps then unat sz else unat sz + unat alignment - unat ps)"
proof -
  have "0 < unat sz" using snz by (simp add: unat_gt_0)
  then have big: "unat ps \<le> unat sz"
    using S pos by (metis dvd_imp_le dvd_eq_mod_eq_0)
  have pad: "unat (padded_size sz alignment ps) = unat sz + unat alignment - unat ps"
    by (rule padded_size_unat [OF big fit pos])
  show ?thesis
  proof (cases "unat alignment \<le> unat ps")
    case True
    have "round_up (unat sz + unat alignment - unat ps) (unat ps) = unat sz"
      using True big apos by (intro round_up_between [OF pos S]) simp_all
    then show ?thesis
      using True unat_lt64 [of sz] unfolding GUM_ALIGN_SIZE_def pad
      by (simp only: unat_of_nat64 if_True)
  next
    case False
    then have "unat ps dvd unat alignment" using dv by simp
    then have "unat ps dvd unat sz + unat alignment - unat ps"
      using S big by (metis dvd_add dvd_diff_nat dvd_eq_mod_eq_0 dvd_refl)
    then have "round_up (unat sz + unat alignment - unat ps) (unat ps) =
        unat sz + unat alignment - unat ps"
      using pos by (simp add: round_up_multiple)
    moreover have "unat sz + unat alignment - unat ps < 2 ^ 64"
      using fit pos big by simp
    ultimately show ?thesis
      using False unfolding GUM_ALIGN_SIZE_def pad by (simp only: unat_of_nat64 if_False)
  qed
qed

lemma pow2_le_dvd: "(2::nat) ^ j \<le> 2 ^ k \<Longrightarrow> (2::nat) ^ j dvd 2 ^ k"
  by (simp add: le_imp_power_dvd)



text \<open>
  C4, as the code has it. For every power-of-two alignment and every size above zero that
  is a multiple of the page size, with \<open>size + alignment\<close> inside the address space, on
  a kernel that keeps the POSIX guarantees, \<open>gum_memory_allocate\<close> either returns
  \<open>NULL\<close> (the mapping of \<open>roundUp(size + (alignment - page_size), page_size)\<close> bytes
  failed and no page changed) or returns the address \<open>a = roundUp(base, alignment)\<close>
  inside the region the kernel mapped at \<open>base\<close>. Then \<open>a\<close> is a multiple of the
  alignment, the \<open>size\<close> bytes from \<open>a\<close> on are mapped with the requested protection, no
  page outside the fresh region changed, and the call has asked for at most two
  \<open>munmap\<close>s after the \<open>mmap\<close>: of the prefix before \<open>a\<close> when it is not empty, and of
  the suffix after \<open>a + size\<close> when it is not empty. When the kernel carried out the
  ones that were asked for, exactly the \<open>size\<close> bytes from \<open>a\<close> on remain of that
  region.
\<close>

theorem gum_memory_allocate_aligned_exact:
  assumes snd: "kernel_sound K"
    and p2: "is_power_of_two alignment"
    and snz: "sz \<noteq> 0" and S: "unat sz mod unat (k_page_size K) = 0"
    and fit: "unat sz + unat alignment \<le> 2 ^ 64"
  shows "(k_mmap K s (GUM_ALIGN_POINTER address alignment)
            (GUM_ALIGN_SIZE (padded_size sz alignment (ucast (gum_query_page_size K)))
               (ucast (gum_query_page_size K)))
            (gum_page_protection_to_posix page_prot) False = None \<and>
          (\<exists>s'. gum_memory_allocate K address sz alignment page_prot s = Inr (None, s') \<and>
                prot_of s' = prot_of s)) \<or>
         (\<exists>base s' ok1 ok2.
            k_mmap K s (GUM_ALIGN_POINTER address alignment)
              (GUM_ALIGN_SIZE (padded_size sz alignment (ucast (gum_query_page_size K)))
                 (ucast (gum_query_page_size K)))
              (gum_page_protection_to_posix page_prot) False = Some base \<and>
            gum_memory_allocate K address sz alignment page_prot s =
              Inr (Some (GUM_ALIGN_POINTER base alignment), s') \<and>
            unat (GUM_ALIGN_POINTER base alignment) mod unat alignment = 0 \<and>
            unat (GUM_ALIGN_POINTER base alignment) + unat sz \<le> 2 ^ 64 \<and>
            calls s' = calls s @
              [Mmap (GUM_ALIGN_POINTER address alignment)
                 (GUM_ALIGN_SIZE (padded_size sz alignment (ucast (gum_query_page_size K)))
                    (ucast (gum_query_page_size K)))
                 (gum_page_protection_to_posix page_prot) False (Some base)] @
              (if GUM_ALIGN_POINTER base alignment = base then []
               else [Munmap base (GUM_ALIGN_POINTER base alignment - base) ok1]) @
              (if GUM_ALIGN_SIZE (padded_size sz alignment (ucast (gum_query_page_size K)))
                    (ucast (gum_query_page_size K)) - (GUM_ALIGN_POINTER base alignment - base) = sz
               then []
               else [Munmap (GUM_ALIGN_POINTER base alignment + sz)
                       (GUM_ALIGN_SIZE (padded_size sz alignment (ucast (gum_query_page_size K)))
                          (ucast (gum_query_page_size K)) - (GUM_ALIGN_POINTER base alignment - base)
                        - sz) ok2]) \<and>
            (\<forall>x. in_region (GUM_ALIGN_POINTER base alignment) (unat sz) x \<longrightarrow>
                 prot_of s' x = Some (gum_page_protection_to_posix page_prot)) \<and>
            (\<forall>x. \<not> in_region base
                   (unat (GUM_ALIGN_SIZE (padded_size sz alignment (ucast (gum_query_page_size K)))
                      (ucast (gum_query_page_size K)))) x \<longrightarrow>
                 prot_of s' x = prot_of s x) \<and>
            ((GUM_ALIGN_POINTER base alignment \<noteq> base \<longrightarrow> ok1) \<and>
             (GUM_ALIGN_SIZE (padded_size sz alignment (ucast (gum_query_page_size K)))
                 (ucast (gum_query_page_size K)) - (GUM_ALIGN_POINTER base alignment - base) \<noteq> sz
              \<longrightarrow> ok2) \<longrightarrow>
             prot_of s' = (\<lambda>x. if in_region (GUM_ALIGN_POINTER base alignment) (unat sz) x
                  then Some (gum_page_protection_to_posix page_prot)
                  else if in_region base
                       (unat (GUM_ALIGN_SIZE (padded_size sz alignment (ucast (gum_query_page_size K)))
                          (ucast (gum_query_page_size K)))) x
                       then None else prot_of s x)))"
proof -
  let ?ps = "ucast (gum_query_page_size K) :: gsize"
  let ?P = "unat (k_page_size K)"
  let ?A = "unat alignment"
  let ?pr = "gum_page_protection_to_posix page_prot"
  let ?len = "GUM_ALIGN_SIZE (padded_size sz alignment ?ps) ?ps"
  let ?hint = "GUM_ALIGN_POINTER address alignment"
  have pos: "0 < ?P" by (rule kernel_sound_page_size(1) [OF snd])
  have Pps: "unat ?ps = ?P" by (rule page_size_unat)
  from kernel_sound_page_size(2) [OF snd] obtain k where k: "?P = 2 ^ k" by blast
  from is_power_of_two_unat [OF p2] obtain j where j: "?A = 2 ^ j" by blast
  have apos: "0 < ?A" by (simp add: j)
  have spos: "0 < unat sz" using snz by (simp add: unat_gt_0)
  have dvPA: "?P dvd ?A" if "?P < ?A"
    using that unfolding j k by (intro pow2_le_dvd) simp
  have dvAP: "?A dvd ?P" if "?A \<le> ?P"
    using that unfolding j k by (intro pow2_le_dvd)
  have len: "unat ?len = (if ?A \<le> ?P then unat sz else unat sz + ?A - ?P)"
    using allocation_length [of ?ps alignment sz] pos apos S snz fit dvPA
    by (simp add: Pps)
  have big: "?P \<le> unat sz"
    using S pos spos by (metis dvd_imp_le dvd_eq_mod_eq_0)
  have lenm: "unat ?len mod ?P = 0"
  proof (cases "?A \<le> ?P")
    case True
    then show ?thesis using S by (simp add: len)
  next
    case False
    then have "?P dvd unat sz + ?A - ?P"
      using S big dvPA by (metis dvd_add dvd_diff_nat dvd_eq_mod_eq_0 dvd_refl not_le)
    then show ?thesis using False by (simp add: len)
  qed
  have unfold: "gum_memory_allocate K address sz alignment page_prot s =
      (case mmap K ?hint ?len ?pr False s of
         (None, s) \<Rightarrow> Inr (None, s)
       | (Some base, s) \<Rightarrow>
           (case trim_to_alignment K base ?len sz alignment s of
              (aligned_base, allocation_size, s) \<Rightarrow>
                if allocation_size = sz then Inr (Some aligned_base, s)
                else Inl Assertion_failed))"
    by (simp add: gum_memory_allocate_def Let_def gum_allocate_page_aligned_def
        split: prod.splits option.splits)
  show ?thesis
  proof (cases "k_mmap K s ?hint ?len ?pr False")
    case None
    then show ?thesis
      by (simp add: unfold mmap_def)
  next
    case (Some base)
    let ?B = "unat base"
    let ?ab = "GUM_ALIGN_POINTER base alignment"
    let ?s1 = "s\<lparr>prot_of := (\<lambda>a. if in_region base (page_span K ?len) a then Some ?pr else prot_of s a),
                 calls := calls s @ [Mmap ?hint ?len ?pr False (Some base)]\<rparr>"
    have Bm: "?B mod ?P = 0" by (rule kernel_sound_mmap(2) [OF snd Some])
    have span: "page_span K ?len = unat ?len"
      using pos lenm by (rule page_span_multiple)
    have top: "?B + unat ?len \<le> 2 ^ 64"
      using kernel_sound_mmap(3) [OF snd Some] span by simp
    have ab: "unat ?ab = round_up ?B ?A \<and> ?B \<le> round_up ?B ?A \<and>
        round_up ?B ?A mod ?P = 0 \<and> round_up ?B ?A + unat sz \<le> ?B + unat ?len"
    proof (cases "?A \<le> ?P")
      case True
      have "?A dvd ?B"
        using dvAP [OF True] Bm by (meson dvd_eq_mod_eq_0 dvd_trans)
      then have r: "round_up ?B ?A = ?B"
        using apos by (simp add: round_up_multiple)
      then have "unat ?ab = ?B"
        by (simp add: GUM_ALIGN_POINTER_def)
      then show ?thesis
        using r Bm True by (simp add: len)
    next
      case False
      then have lt: "?P < ?A" by simp
      from round_up_coarser [OF pos dvPA [OF lt] apos Bm]
      have rm: "round_up ?B ?A mod ?P = 0" and rb: "round_up ?B ?A + ?P \<le> ?B + ?A"
        by simp_all
      have fitr: "round_up ?B ?A + unat sz \<le> ?B + unat ?len"
        using rb big False by (simp add: len)
      then have "round_up ?B ?A < 2 ^ 64"
        using top spos by simp
      then have "unat ?ab = round_up ?B ?A"
        unfolding GUM_ALIGN_POINTER_def by (rule unat_of_nat64)
      then show ?thesis
        using rm fitr round_up_ge [OF apos, of ?B] by simp
    qed
    then have abm: "unat ?ab mod ?P = 0" and able: "?B \<le> unat ?ab"
      and abfit: "unat ?ab + unat sz \<le> ?B + unat ?len"
      by simp_all
    have abA: "unat ?ab mod ?A = 0"
      using ab by (simp add: round_up_mod)
    from trim_effect [OF pos Bm lenm S abm able abfit top snz, of ?s1]
    obtain s' ok1 ok2 where tr: "trim_to_alignment K base ?len sz alignment ?s1 = (?ab, sz, s')"
      and cs: "calls s' = calls ?s1 @
            (if ?ab = base then [] else [Munmap base (?ab - base) ok1]) @
            (if ?len - (?ab - base) = sz then []
             else [Munmap (?ab + sz) (?len - (?ab - base) - sz) ok2])"
      and keep: "\<forall>x. in_region ?ab (unat sz) x \<or> \<not> in_region base (unat ?len) x \<longrightarrow>
            prot_of s' x = prot_of ?s1 x"
      and pr': "(?ab \<noteq> base \<longrightarrow> ok1) \<and> (?len - (?ab - base) \<noteq> sz \<longrightarrow> ok2) \<longrightarrow>
            prot_of s' = (\<lambda>x. if in_region base (unat ?len) x \<and> \<not> in_region ?ab (unat sz) x
                            then None else prot_of ?s1 x)"
      by blast
    have run: "gum_memory_allocate K address sz alignment page_prot s = Inr (Some ?ab, s')"
      using Some tr by (simp add: unfold mmap_def)
    have log: "calls s' = calls s @ [Mmap ?hint ?len ?pr False (Some base)] @
            (if ?ab = base then [] else [Munmap base (?ab - base) ok1]) @
            (if ?len - (?ab - base) = sz then []
             else [Munmap (?ab + sz) (?len - (?ab - base) - sz) ok2])"
      using cs by simp
    have mapped: "\<forall>x. in_region ?ab (unat sz) x \<longrightarrow> prot_of s' x = Some ?pr"
      using keep able abfit by (auto simp: span in_region_def)
    have outside: "\<forall>x. \<not> in_region base (unat ?len) x \<longrightarrow> prot_of s' x = prot_of s x"
      using keep by (auto simp: span)
    have prot: "(?ab \<noteq> base \<longrightarrow> ok1) \<and> (?len - (?ab - base) \<noteq> sz \<longrightarrow> ok2) \<longrightarrow>
        prot_of s' = (\<lambda>x. if in_region ?ab (unat sz) x then Some ?pr
                  else if in_region base (unat ?len) x then None else prot_of s x)"
    proof
      assume "(?ab \<noteq> base \<longrightarrow> ok1) \<and> (?len - (?ab - base) \<noteq> sz \<longrightarrow> ok2)"
      with pr' have "prot_of s' = (\<lambda>x. if in_region base (unat ?len) x \<and>
              \<not> in_region ?ab (unat sz) x then None else prot_of ?s1 x)"
        by (rule mp)
      then show "prot_of s' = (\<lambda>x. if in_region ?ab (unat sz) x then Some ?pr
                  else if in_region base (unat ?len) x then None else prot_of s x)"
        using able abfit by (auto simp: span fun_eq_iff in_region_def)
    qed
    have fit2: "unat ?ab + unat sz \<le> 2 ^ 64"
      using abfit top by simp
    show ?thesis
      apply (rule disjI2)
      apply (rule exI [of _ base])
      apply (rule exI [of _ s'])
      apply (rule exI [of _ ok1])
      apply (rule exI [of _ ok2])
      apply (intro conjI)
      apply (rule Some)
      apply (rule run)
      apply (rule abA)
      apply (rule fit2)
      apply (rule log)
      apply (rule mapped)
      apply (rule outside)
      apply (rule prot)
      done
  qed
qed

lemma plain_kernel_mmap_any:
  "k_mmap plain_kernel s hint 4096 pr False = Some 0x10000"
  by (simp add: plain_kernel_def example_kernel_def round_up_def)

lemma plain_kernel_munmap:
  "k_munmap plain_kernel s addr len = (len \<noteq> 0 \<and> unat addr mod 4096 = 0)"
  by (simp add: plain_kernel_def example_kernel_def)

lemma plain_kernel_span: "page_span plain_kernel len = round_up (unat len) 4096"
  by (simp add: page_span_def plain_kernel_def example_kernel_def)

lemma example_run_unaligned_size:
  "returned (gum_memory_allocate plain_kernel 0 100 4096 GUM_PAGE_RW empty_state) = Inr (Some 0x10000) \<and>
   protection_after (gum_memory_allocate plain_kernel 0 100 4096 GUM_PAGE_RW empty_state) 0x10064 = Some 3"
  by (simp add: gum_memory_allocate_def Let_def plain_kernel_page padded_size_def
      GUM_ALIGN_SIZE_def GUM_ALIGN_POINTER_def round_up_def gum_allocate_page_aligned_def mmap_def
      plain_kernel_mmap_any trim_to_alignment_def gum_memory_free_def munmap_def
      plain_kernel_munmap plain_kernel_span returned_def protection_after_def posix_rw
      in_region_def empty_state_def)

lemma example_run_small_alignment:
  "returned (gum_memory_allocate plain_kernel 0 5000 16 GUM_PAGE_RW empty_state) = Inr (Some 0x10000) \<and>
   protection_after (gum_memory_allocate plain_kernel 0 5000 16 GUM_PAGE_RW empty_state) 0x11000 = None"
  by (simp add: gum_memory_allocate_def Let_def plain_kernel_page padded_size_def
      GUM_ALIGN_SIZE_def GUM_ALIGN_POINTER_def round_up_def gum_allocate_page_aligned_def mmap_def
      plain_kernel_mmap_any trim_to_alignment_def gum_memory_free_def munmap_def
      plain_kernel_munmap plain_kernel_span returned_def protection_after_def posix_rw
      in_region_def empty_state_def)

lemma example_run_overflow:
  "returned (gum_memory_allocate plain_kernel 0 0x8000000000002000 0x8000000000000000 GUM_PAGE_RW
      empty_state) = Inr (Some 0x8000000000000000) \<and>
   protection_after (gum_memory_allocate plain_kernel 0 0x8000000000002000 0x8000000000000000
      GUM_PAGE_RW empty_state) 0x8000000000000000 = None"
  by (simp add: gum_memory_allocate_def Let_def plain_kernel_page padded_size_def
      GUM_ALIGN_SIZE_def GUM_ALIGN_POINTER_def round_up_def gum_allocate_page_aligned_def mmap_def
      plain_kernel_mmap_any trim_to_alignment_def gum_memory_free_def munmap_def
      plain_kernel_munmap plain_kernel_span returned_def protection_after_def posix_rw
      in_region_def empty_state_def)

lemma example_run_trimmed:
  "returned (gum_memory_allocate offset_kernel 0 0x2000 0x4000 GUM_PAGE_RW empty_state) =
     Inr (Some 0x14000) \<and>
   logged (gum_memory_allocate offset_kernel 0 0x2000 0x4000 GUM_PAGE_RW empty_state) =
     [Mmap 0 0x5000 3 False (Some 0x12000), Munmap 0x12000 0x2000 True, Munmap 0x16000 0x1000 True]"
  by (simp add: gum_memory_allocate_def Let_def gum_query_page_size_eq padded_size_def
      GUM_ALIGN_SIZE_def GUM_ALIGN_POINTER_def round_up_def gum_allocate_page_aligned_def mmap_def
      trim_to_alignment_def gum_memory_free_def munmap_def page_span_def
      offset_kernel_def example_kernel_def returned_def logged_def posix_rw
      in_region_def empty_state_def)

lemma example_run_refused:
  "returned (gum_memory_allocate refusing_kernel 0 0x2000 0x4000 GUM_PAGE_RW empty_state) =
     Inr (Some 0x14000) \<and>
   protection_after (gum_memory_allocate refusing_kernel 0 0x2000 0x4000 GUM_PAGE_RW empty_state)
     0x12000 = Some 3 \<and>
   logged (gum_memory_allocate refusing_kernel 0 0x2000 0x4000 GUM_PAGE_RW empty_state) =
     [Mmap 0 0x5000 3 False (Some 0x12000), Munmap 0x12000 0x2000 False, Munmap 0x16000 0x1000 False]"
  by (simp add: gum_memory_allocate_def Let_def gum_query_page_size_eq padded_size_def
      GUM_ALIGN_SIZE_def GUM_ALIGN_POINTER_def round_up_def gum_allocate_page_aligned_def mmap_def
      trim_to_alignment_def gum_memory_free_def munmap_def page_span_def refusing_kernel_def
      offset_kernel_def example_kernel_def returned_def logged_def protection_after_def posix_rw
      in_region_def empty_state_def)

lemma kernel_sound_refusing: "kernel_sound refusing_kernel"
proof -
  have "kernel_sound offset_kernel"
    unfolding offset_kernel_def by (rule kernel_sound_example)
  then show ?thesis
    by (simp add: kernel_sound_def refusing_kernel_def page_span_def)
qed

theorem gum_memory_allocate_aligned_exact_witness:
  "kernel_sound offset_kernel \<and>
   is_power_of_two (0x4000 :: gsize) \<and> (0x2000 :: gsize) \<noteq> 0 \<and>
   unat (0x2000 :: gsize) mod unat (k_page_size offset_kernel) = 0 \<and>
   unat (0x2000 :: gsize) + unat (0x4000 :: gsize) \<le> 2 ^ 64 \<and>
   (\<exists>s'. gum_memory_allocate offset_kernel 0 0x2000 0x4000 GUM_PAGE_RW empty_state =
           Inr (Some 0x14000, s') \<and>
         unat (0x14000 :: gsize) mod unat (0x4000 :: gsize) = 0 \<and>
         calls s' = [Mmap 0 0x5000 3 False (Some 0x12000), Munmap 0x12000 0x2000 True,
                     Munmap 0x16000 0x1000 True] \<and>
         prot_of s' 0x11FFF = None \<and> prot_of s' 0x12000 = None \<and>
         prot_of s' 0x13FFF = None \<and> prot_of s' 0x14000 = Some 3 \<and>
         prot_of s' 0x15FFF = Some 3 \<and> prot_of s' 0x16000 = None \<and>
         prot_of s' 0x16FFF = None \<and> prot_of s' 0x17000 = None)"
proof -
  have ks: "kernel_sound offset_kernel"
    unfolding offset_kernel_def by (rule kernel_sound_example)
  have p2: "is_power_of_two (0x4000 :: gsize)"
    unfolding is_power_of_two_def by (rule exI [of _ 14]) simp
  have nz: "(0x2000 :: gsize) \<noteq> 0" by simp
  have P: "unat (k_page_size offset_kernel) = 4096"
    by (simp add: offset_kernel_def example_kernel_def)
  have m: "unat (0x2000 :: gsize) mod unat (k_page_size offset_kernel) = 0"
    by (simp add: P)
  have f: "unat (0x2000 :: gsize) + unat (0x4000 :: gsize) \<le> 2 ^ 64" by simp
  have len: "GUM_ALIGN_SIZE (padded_size 0x2000 0x4000 (ucast (gum_query_page_size offset_kernel)))
      (ucast (gum_query_page_size offset_kernel)) = 0x5000"
    by (simp add: gum_query_page_size_eq offset_kernel_def example_kernel_def padded_size_def
        GUM_ALIGN_SIZE_def round_up_def)
  have hint: "GUM_ALIGN_POINTER 0 0x4000 = 0"
    by (simp add: GUM_ALIGN_POINTER_def round_up_def)
  have km: "k_mmap offset_kernel empty_state 0 0x5000
      (gum_page_protection_to_posix GUM_PAGE_RW) False = Some 0x12000"
    by (simp add: offset_kernel_def example_kernel_def round_up_def)
  have ab: "GUM_ALIGN_POINTER 0x12000 0x4000 = 0x14000"
    by (simp add: GUM_ALIGN_POINTER_def round_up_def)
  note inst = gum_memory_allocate_aligned_exact [OF ks p2 nz m f, of empty_state 0 GUM_PAGE_RW,
      unfolded len hint km]
  have "\<exists>s'. gum_memory_allocate offset_kernel 0 0x2000 0x4000 GUM_PAGE_RW empty_state =
           Inr (Some 0x14000, s') \<and>
         unat (0x14000 :: gsize) mod unat (0x4000 :: gsize) = 0 \<and>
         calls s' = [Mmap 0 0x5000 3 False (Some 0x12000), Munmap 0x12000 0x2000 True,
                     Munmap 0x16000 0x1000 True] \<and>
         prot_of s' 0x11FFF = None \<and> prot_of s' 0x12000 = None \<and>
         prot_of s' 0x13FFF = None \<and> prot_of s' 0x14000 = Some 3 \<and>
         prot_of s' 0x15FFF = Some 3 \<and> prot_of s' 0x16000 = None \<and>
         prot_of s' 0x16FFF = None \<and> prot_of s' 0x17000 = None"
    using inst example_run_trimmed
    apply (elim disjE exE conjE)
     apply simp
    apply (clarsimp simp: ab logged_def posix_rw in_region_def empty_state_def)
    done
  then show ?thesis
    using ks p2 m by simp
qed

text \<open>
  Three runs on a kernel with pages of 4096 bytes that places the mapping at 0x10000.
  A size of 100 bytes with alignment 4096: the byte at offset 100 is still mapped on
  return, since the release of the suffix at an address inside the page is refused. A
  size of 5000 bytes with alignment 16: one page is mapped and the byte at offset 4096,
  inside the requested size, is not. A size of 2^63 + 8192 with alignment 2^63: the sum
  wraps, and the address returned is not mapped at all. A fourth run, of two pages with
  alignment 0x4000 on a kernel that keeps the POSIX guarantees, places the mapping at
  0x12000 and refuses to unmap: the result of \<open>gum_memory_free\<close> is not looked at, the
  address 0x14000 is returned, and the prefix from 0x12000 on is still mapped.
\<close>

theorem gum_memory_allocate_exact_counterexample:
  "is_power_of_two (4096 :: gsize) \<and>
   returned (gum_memory_allocate plain_kernel 0 100 4096 GUM_PAGE_RW empty_state) = Inr (Some 0x10000) \<and>
   \<not> in_region 0x10000 (unat (100 :: gsize)) 0x10064 \<and>
   prot_of empty_state 0x10064 = None \<and>
   protection_after (gum_memory_allocate plain_kernel 0 100 4096 GUM_PAGE_RW empty_state) 0x10064
     = Some 3 \<and>
   is_power_of_two (16 :: gsize) \<and>
   returned (gum_memory_allocate plain_kernel 0 5000 16 GUM_PAGE_RW empty_state) = Inr (Some 0x10000) \<and>
   in_region 0x10000 (unat (5000 :: gsize)) 0x11000 \<and>
   protection_after (gum_memory_allocate plain_kernel 0 5000 16 GUM_PAGE_RW empty_state) 0x11000
     = None \<and>
   is_power_of_two (0x8000000000000000 :: gsize) \<and>
   returned (gum_memory_allocate plain_kernel 0 0x8000000000002000 0x8000000000000000 GUM_PAGE_RW
      empty_state) = Inr (Some 0x8000000000000000) \<and>
   protection_after (gum_memory_allocate plain_kernel 0 0x8000000000002000 0x8000000000000000
      GUM_PAGE_RW empty_state) 0x8000000000000000 = None \<and>
   kernel_sound refusing_kernel \<and> is_power_of_two (0x4000 :: gsize) \<and>
   unat (0x2000 :: gsize) mod unat (k_page_size refusing_kernel) = 0 \<and>
   returned (gum_memory_allocate refusing_kernel 0 0x2000 0x4000 GUM_PAGE_RW empty_state) =
     Inr (Some 0x14000) \<and>
   \<not> in_region 0x14000 (unat (0x2000 :: gsize)) 0x12000 \<and>
   prot_of empty_state 0x12000 = None \<and>
   protection_after (gum_memory_allocate refusing_kernel 0 0x2000 0x4000 GUM_PAGE_RW empty_state)
     0x12000 = Some 3 \<and>
   logged (gum_memory_allocate refusing_kernel 0 0x2000 0x4000 GUM_PAGE_RW empty_state) =
     [Mmap 0 0x5000 3 False (Some 0x12000), Munmap 0x12000 0x2000 False, Munmap 0x16000 0x1000 False]"
proof -
  have a: "is_power_of_two (4096 :: gsize)"
    unfolding is_power_of_two_def by (rule exI [of _ 12]) simp
  have b: "is_power_of_two (16 :: gsize)"
    unfolding is_power_of_two_def by (rule exI [of _ 4]) simp
  have c: "is_power_of_two (0x8000000000000000 :: gsize)"
    unfolding is_power_of_two_def by (rule exI [of _ 63]) simp
  have c': "is_power_of_two (0x4000 :: gsize)"
    unfolding is_power_of_two_def by (rule exI [of _ 14]) simp
  have d: "\<not> in_region 0x10000 (unat (100 :: gsize)) 0x10064"
    "in_region 0x10000 (unat (5000 :: gsize)) 0x11000"
    "prot_of empty_state 0x10064 = None"
    "\<not> in_region 0x14000 (unat (0x2000 :: gsize)) 0x12000"
    "prot_of empty_state 0x12000 = None"
    "unat (0x2000 :: gsize) mod unat (k_page_size refusing_kernel) = 0"
    by (simp_all add: in_region_def empty_state_def refusing_kernel_def offset_kernel_def
        example_kernel_def)
  show ?thesis
    using a b c c' d example_run_unaligned_size example_run_small_alignment example_run_overflow
      example_run_refused kernel_sound_refusing
    by simp
qed

section \<open>The raw allocator: alignments below the page size\<close>












end
